theory Spec2Isabelle
  imports Main "HOL-Library.Word"
begin

unbundle bit_operations_syntax

section \<open>hello\_drmprime: data\<close>

text \<open>
  The program is one C file, \<^verbatim>\<open>hello_drmprime.c\<close>. Its own code is the argument loop, the
  format callback \<^verbatim>\<open>get_hw_format\<close>, the feed/drain routine \<^verbatim>\<open>decode_write\<close> and the pass
  loop of \<^verbatim>\<open>main\<close>; everything else is a call into libavformat, libavcodec, libavutil,
  libc or the display module behind \<^verbatim>\<open>drmprime_out.h\<close>. The model keeps the program's code
  as functions, reads the result of every outside call from an explicit environment and
  records the calls that act on the outside (display, files, contexts) in a trace.
\<close>

text \<open>
  \<^verbatim>\<open>enum AVPixelFormat\<close>: the two members the program names, and all others by number.
  \<^verbatim>\<open>AV_PIX_FMT_NONE\<close> is the member with value \<^verbatim>\<open>-1\<close>, which ends a format array.
\<close>

datatype AVPixelFormat = AV_PIX_FMT_NONE | AV_PIX_FMT_DRM_PRIME | AV_PIX_FMT_OTHER nat

datatype AVCodecID = AV_CODEC_ID_H264 | AV_CODEC_ID_OTHER nat

datatype AVHWDeviceType = AV_HWDEVICE_TYPE_NONE | AV_HWDEVICE_TYPE_DRM | AV_HWDEVICE_TYPE_OTHER nat

text \<open>
  \<^verbatim>\<open>long\<close> on an LP64 target. \<^verbatim>\<open>--x\<close> is subtraction on the word, which wraps around where C
  leaves the overflow undefined; the properties say when they need \<^verbatim>\<open>LONG_MIN\<close> excluded.
\<close>

type_synonym long = "64 word"

section \<open>The format callback\<close>

text \<open>
  \<^verbatim>\<open>get_hw_format\<close> walks the array \<^verbatim>\<open>pix_fmts\<close> up to the first \<^verbatim>\<open>-1\<close>. The first argument is the
  global \<^verbatim>\<open>hw_pix_fmt\<close>, the list is the memory of the array. An array without the
  terminating \<^verbatim>\<open>-1\<close> is read past its end: \<open>None\<close>.
\<close>

fun get_hw_format :: "AVPixelFormat \<Rightarrow> AVPixelFormat list \<Rightarrow> AVPixelFormat option" where
  "get_hw_format hw [] = None"
| "get_hw_format hw (p # ps) =
     (if p = AV_PIX_FMT_NONE then Some AV_PIX_FMT_NONE
      else if p = hw then Some p
      else get_hw_format hw ps)"

text \<open>The formats on offer: the entries of the array before the terminator.\<close>

definition offered :: "AVPixelFormat list \<Rightarrow> AVPixelFormat list" where
  "offered pix_fmts = takeWhile (\<lambda>p. p \<noteq> AV_PIX_FMT_NONE) pix_fmts"

section \<open>Results of the library calls\<close>

text \<open>
  The error codes the program compares against: \<^verbatim>\<open>AVERROR(e)\<close> is \<^verbatim>\<open>-e\<close>, \<^verbatim>\<open>EAGAIN\<close> is 11 and
  \<^verbatim>\<open>ENOMEM\<close> is 12 on Linux, and \<^verbatim>\<open>AVERROR_EOF\<close> is \<^verbatim>\<open>-MKTAG('E','O','F',' ')\<close>, that is
  \<open>- (69 + 79 * 2^8 + 70 * 2^16 + 32 * 2^24)\<close>. A C \<^verbatim>\<open>int\<close> that is only compared is an \<open>int\<close>.
\<close>

definition AVERROR :: "int \<Rightarrow> int" where
  "AVERROR e = - e"

definition EAGAIN :: int where
  "EAGAIN = 11"

definition ENOMEM :: int where
  "ENOMEM = 12"

definition AVERROR_EOF :: int where
  "AVERROR_EOF = - 541478725"

text \<open>\<^verbatim>\<open>ret = fwrite(...)\<close> stores a \<^verbatim>\<open>size_t\<close> in an \<^verbatim>\<open>int\<close>: the low 32 bits, read as signed.\<close>

definition int_of_size_t :: "nat \<Rightarrow> int" where
  "int_of_size_t n = sint (word_of_nat n :: 32 word)"

record AVFrame =
  format :: AVPixelFormat
  width :: int
  height :: int

text \<open>
  The program's observable calls, in the order it makes them. \<open>Ev_fwrite f size n\<close> is a
  call of \<^verbatim>\<open>fwrite\<close> for the \<open>size\<close> bytes of frame \<open>f\<close> that wrote \<open>n\<close> of them.
  \<open>Ev_av_hwdevice_ctx_create\<close> is the call of line 57, which puts the device context into
  the codec context (\<^verbatim>\<open>ctx->hw_device_ctx\<close>); \<open>Ev_avcodec_free_context\<close> is the call of line
  337 on that codec context. \<open>Ev_av_buffer_unref\<close> is the call of line 339 on the global
  \<^verbatim>\<open>hw_device_ctx\<close>, which no line of the program assigns: it is \<^verbatim>\<open>NULL\<close> at every call, and
  the call releases nothing.
\<close>

datatype event =
    Ev_drmprime_out_new
  | Ev_fopen string
  | Ev_avformat_open_input "string option"
  | Ev_avcodec_alloc_context3
  | Ev_av_hwdevice_ctx_create
  | Ev_avcodec_open2
  | Ev_drmprime_out_display AVFrame
  | Ev_fwrite AVFrame int nat
  | Ev_fclose
  | Ev_avcodec_free_context
  | Ev_avformat_close_input
  | Ev_av_buffer_unref
  | Ev_drmprime_out_delete

text \<open>
  The globals \<^verbatim>\<open>hw_pix_fmt\<close>, \<^verbatim>\<open>output_file\<close> and \<^verbatim>\<open>frames\<close>, and the calls made so far.
  \<open>output_file\<close> says that the pointer is not \<^verbatim>\<open>NULL\<close>; \<open>file_closed\<close> that \<^verbatim>\<open>fclose\<close> has been
  called on the stream it points to (the pointer keeps its value).
\<close>

record state =
  hw_pix_fmt :: AVPixelFormat
  output_file :: bool
  file_closed :: bool
  frames :: long
  trace :: "event list"

definition call :: "event \<Rightarrow> state \<Rightarrow> state" where
  "call ev s = s\<lparr>trace := trace s @ [ev]\<rparr>"

text \<open>
  One turn of the \<^verbatim>\<open>for (;;)\<close> loop of \<^verbatim>\<open>decode_write\<close>: what each library call of that turn
  returns, should the turn reach it.
\<close>

record receive_step =
  frame_alloc_ok :: bool
  receive_ret :: int
  frame :: AVFrame
  transfer_ret :: int
  sw_frame :: AVFrame
  buffer_size :: int
  malloc_ok :: bool
  copy_ret :: int
  fwrite_ret :: nat

section \<open>decode\_write\<close>

text \<open>
  Lines 115 to 149, entered when \<^verbatim>\<open>output_file != NULL\<close>: the turn either jumps to \<^verbatim>\<open>fail\<close>
  with \<^verbatim>\<open>ret\<close>, or falls through to the frame count with \<^verbatim>\<open>ret\<close>, or calls \<^verbatim>\<open>fwrite\<close> on a
  stream that was closed, which C leaves undefined.
\<close>

datatype dumped = Goto_fail int | Fall_through int | Stale_stream

definition dump_frame :: "state \<Rightarrow> receive_step \<Rightarrow> dumped \<times> state" where
  "dump_frame s x =
     (let hw = (format (frame x) = hw_pix_fmt s) in
      if hw \<and> transfer_ret x < 0 then (Goto_fail (transfer_ret x), s)
      else
        let tmp_frame = (if hw then sw_frame x else frame x) in
        if \<not> malloc_ok x then (Goto_fail (AVERROR ENOMEM), s)
        else if copy_ret x < 0 then (Goto_fail (copy_ret x), s)
        else if file_closed s then (Stale_stream, s)
        else
          let ret = int_of_size_t (fwrite_ret x);
              s' = call (Ev_fwrite tmp_frame (buffer_size x) (fwrite_ret x)) s
          in if ret < 0 then (Goto_fail ret, s') else (Fall_through ret, s'))"

text \<open>Lines 151 and 152: \<^verbatim>\<open>if (frames == 0 || --frames == 0) ret = -1;\<close>\<close>

definition count_frame :: "state \<Rightarrow> int \<Rightarrow> int \<times> state" where
  "count_frame s ret =
     (if frames s = 0 then (- 1, s)
      else
        let s' = s\<lparr>frames := frames s - 1\<rparr>
        in if frames s' = 0 then (- 1, s') else (ret, s'))"

text \<open>The way a turn of the loop ends: \<^verbatim>\<open>return\<close>, the next turn, or undefined behaviour.\<close>

datatype flow = Return int | Continue | Stale

text \<open>The label \<^verbatim>\<open>fail\<close>, lines 154 to 159.\<close>

definition at_fail :: "int \<Rightarrow> state \<Rightarrow> flow \<times> state" where
  "at_fail ret s = (if ret < 0 then (Return ret, s) else (Continue, s))"

definition for_body :: "state \<Rightarrow> receive_step \<Rightarrow> flow \<times> state" where
  "for_body s x =
     (if \<not> frame_alloc_ok x then at_fail (AVERROR ENOMEM) s
      else if receive_ret x = AVERROR EAGAIN \<or> receive_ret x = AVERROR_EOF then (Return 0, s)
      else if receive_ret x < 0 then at_fail (receive_ret x) s
      else
        let s1 = call (Ev_drmprime_out_display (frame x)) s in
        case (if output_file s1 then dump_frame s1 x else (Fall_through (receive_ret x), s1)) of
          (Stale_stream, s2) \<Rightarrow> (Stale, s2)
        | (Goto_fail ret, s2) \<Rightarrow> at_fail ret s2
        | (Fall_through ret, s2) \<Rightarrow> (case count_frame s2 ret of (ret', s3) \<Rightarrow> at_fail ret' s3))"

text \<open>
  The loop runs over the decoder's remaining turns. A decoder with no turn left has
  nothing more to give: \<^verbatim>\<open>avcodec_receive_frame\<close> returns \<^verbatim>\<open>AVERROR_EOF\<close>, and the loop
  returns 0. The result is the value returned (\<open>None\<close> for undefined behaviour), the state
  and the turns left.
\<close>

fun receive_loop :: "state \<Rightarrow> receive_step list \<Rightarrow> int option \<times> state \<times> receive_step list" where
  "receive_loop s [] = (Some 0, s, [])"
| "receive_loop s (x # xs) =
     (case for_body s x of
        (Return ret, s') \<Rightarrow> (Some ret, s', xs)
      | (Stale, s') \<Rightarrow> (None, s', xs)
      | (Continue, s') \<Rightarrow> receive_loop s' xs)"

text \<open>\<open>send_ret\<close> is what \<^verbatim>\<open>avcodec_send_packet\<close> returns for the packet.\<close>

definition decode_write :: "state \<Rightarrow> int \<Rightarrow> receive_step list \<Rightarrow> int option \<times> state \<times> receive_step list" where
  "decode_write s send_ret decoder =
     (if send_ret < 0 then (Some send_ret, s, decoder) else receive_loop s decoder)"

text \<open>
  The loop passes through the turns \<open>xs\<close> when each of them ends in the next turn; the
  result is the state it reaches.
\<close>

fun through :: "state \<Rightarrow> receive_step list \<Rightarrow> state option" where
  "through s [] = Some s"
| "through s (x # xs) =
     (case for_body s x of
        (Continue, s') \<Rightarrow> through s' xs
      | (Return ret, s') \<Rightarrow> None
      | (Stale, s') \<Rightarrow> None)"

section \<open>Format negotiation\<close>

text \<open>
  \<^verbatim>\<open>AVCodecHWConfig\<close> and the fields of \<^verbatim>\<open>AVCodec\<close> the program reads (\<^verbatim>\<open>id\<close> and \<^verbatim>\<open>name\<close>, here
  \<open>codec_id\<close> and \<open>codec_name\<close>), with the configurations that \<^verbatim>\<open>avcodec_get_hw_config\<close>
  hands out by index. \<open>methods\<close> is a bit mask; \<^verbatim>\<open>AV_CODEC_HW_CONFIG_METHOD_HW_DEVICE_CTX\<close> is
  its bit 0.
\<close>

record AVCodecHWConfig =
  pix_fmt :: AVPixelFormat
  methods :: "32 word"
  device_type :: AVHWDeviceType

record AVCodec =
  codec_name :: string
  codec_id :: AVCodecID
  hw_configs :: "AVCodecHWConfig list"

definition AV_CODEC_HW_CONFIG_METHOD_HW_DEVICE_CTX :: "32 word" where
  "AV_CODEC_HW_CONFIG_METHOD_HW_DEVICE_CTX = 1"

text \<open>The library returns the configuration at the index, or \<^verbatim>\<open>NULL\<close> past the last one.\<close>

definition avcodec_get_hw_config :: "AVCodec \<Rightarrow> nat \<Rightarrow> AVCodecHWConfig option" where
  "avcodec_get_hw_config c i = (if i < length (hw_configs c) then Some (hw_configs c ! i) else None)"

text \<open>The loop of lines 283 to 295, from index \<open>i\<close>; \<open>None\<close> is its \<^verbatim>\<open>return -1\<close>.\<close>

function find_hw_config :: "AVCodec \<Rightarrow> AVHWDeviceType \<Rightarrow> nat \<Rightarrow> AVPixelFormat option" where
  "find_hw_config decoder dev_type i =
     (case avcodec_get_hw_config decoder i of
        None \<Rightarrow> None
      | Some config \<Rightarrow>
          if methods config AND AV_CODEC_HW_CONFIG_METHOD_HW_DEVICE_CTX \<noteq> 0
             \<and> device_type config = dev_type
          then Some (pix_fmt config)
          else find_hw_config decoder dev_type (i + 1))"
  by pat_completeness auto
termination
  by (relation "measure (\<lambda>(decoder, dev_type, i). length (hw_configs decoder) - i)")
     (auto simp: avcodec_get_hw_config_def split: if_splits)

text \<open>
  Lines 275 to 296. \<open>by_name\<close> is what \<^verbatim>\<open>avcodec_find_decoder_by_name("h264_v4l2m2m")\<close>
  returns. The result is the decoder to open and the value stored in \<^verbatim>\<open>hw_pix_fmt\<close>;
  \<open>None\<close> is \<^verbatim>\<open>return -1\<close>.
\<close>

definition negotiate :: "AVHWDeviceType \<Rightarrow> AVCodec \<Rightarrow> AVCodec option \<Rightarrow> (AVCodec \<times> AVPixelFormat) option" where
  "negotiate dev_type decoder by_name =
     (if codec_id decoder = AV_CODEC_ID_H264 then
        (case by_name of
           None \<Rightarrow> None
         | Some m2m \<Rightarrow> Some (m2m, AV_PIX_FMT_DRM_PRIME))
      else
        (case find_hw_config decoder dev_type 0 of
           None \<Rightarrow> None
         | Some fmt \<Rightarrow> Some (decoder, fmt)))"

text \<open>The test of lines 290 and 291 on one configuration.\<close>

definition qualifies :: "AVHWDeviceType \<Rightarrow> AVCodecHWConfig \<Rightarrow> bool" where
  "qualifies dev_type config =
     (methods config AND AV_CODEC_HW_CONFIG_METHOD_HW_DEVICE_CTX \<noteq> 0
      \<and> device_type config = dev_type)"

section \<open>One pass of main\<close>

text \<open>
  The locals of \<^verbatim>\<open>main\<close> that the argument loop sets. A \<^verbatim>\<open>NULL\<close> string is \<open>None\<close>.
\<close>

record main_vars =
  loop_count :: long
  frame_count :: long
  out_name :: "string option"
  in_file :: "string option"

text \<open>One call of \<^verbatim>\<open>av_read_frame\<close>: its result, the stream of the packet it read, and what
  \<^verbatim>\<open>avcodec_send_packet\<close> returns if the packet is sent.\<close>

record read_step =
  read_ret :: int
  stream_index :: int
  send_ret :: int

text \<open>
  What the library calls of one pass return. A file with no packet left makes
  \<^verbatim>\<open>av_read_frame\<close> return \<^verbatim>\<open>AVERROR_EOF\<close>.
\<close>

record pass_env =
  open_input_ret :: int
  find_stream_info_ret :: int
  find_best_stream_ret :: int
  best_decoder :: AVCodec
  decoder_by_name :: "AVCodec option"
  alloc_context_ok :: bool
  parameters_to_context_ret :: int
  hwdevice_ctx_create_ret :: int
  open2_ret :: int
  read_script :: "read_step list"
  flush_send_ret :: int
  receive_script :: "receive_step list"

text \<open>\<^verbatim>\<open>hw_decoder_init\<close> returns what \<^verbatim>\<open>av_hwdevice_ctx_create\<close> returned, on both paths.\<close>

definition hw_decoder_init :: "int \<Rightarrow> int" where
  "hw_decoder_init err = (if err < 0 then err else err)"

text \<open>
  The loop of lines 319 to 327, entered with \<^verbatim>\<open>ret\<close>. The result says whether the behaviour
  stayed defined, and gives the state, the packets not read and the decoder's turns left.
\<close>

fun read_loop :: "int \<Rightarrow> int \<Rightarrow> state \<Rightarrow> read_step list \<Rightarrow> receive_step list
    \<Rightarrow> bool \<times> state \<times> read_step list \<times> receive_step list" where
  "read_loop video_stream ret s [] decoder = (True, s, [], decoder)"
| "read_loop video_stream ret s (p # ps) decoder =
     (if ret < 0 then (True, s, p # ps, decoder)
      else if read_ret p < 0 then (True, s, ps, decoder)
      else if video_stream = stream_index p then
        (case decode_write s (send_ret p) decoder of
           (None, s', decoder') \<Rightarrow> (False, s', ps, decoder')
         | (Some ret', s', decoder') \<Rightarrow> read_loop video_stream ret' s' ps decoder')
      else read_loop video_stream (read_ret p) s ps decoder)"

text \<open>How a pass ends: at line 341, by a \<^verbatim>\<open>return\<close> from \<^verbatim>\<open>main\<close>, or in undefined behaviour.\<close>

datatype pass_end = Completed | Aborted int | Broken

text \<open>Lines 256 to 315: the set-up, giving the index of the video stream.\<close>

definition set_up :: "AVHWDeviceType \<Rightarrow> main_vars \<Rightarrow> pass_env \<Rightarrow> state \<Rightarrow> (int + int) \<times> state" where
  "set_up dev_type v e s =
     (let s1 = call (Ev_avformat_open_input (in_file v)) s in
      if open_input_ret e \<noteq> 0 then (Inl (- 1), s1)
      else if find_stream_info_ret e < 0 then (Inl (- 1), s1)
      else if find_best_stream_ret e < 0 then (Inl (- 1), s1)
      else
        case negotiate dev_type (best_decoder e) (decoder_by_name e) of
          None \<Rightarrow> (Inl (- 1), s1)
        | Some (decoder, fmt) \<Rightarrow>
            let s2 = s1\<lparr>hw_pix_fmt := fmt\<rparr> in
            if \<not> alloc_context_ok e then (Inl (AVERROR ENOMEM), s2)
            else
              let s3 = call Ev_avcodec_alloc_context3 s2 in
              if parameters_to_context_ret e < 0 then (Inl (- 1), s3)
              else if hw_decoder_init (hwdevice_ctx_create_ret e) < 0 then (Inl (- 1), s3)
              else
                let s4 = call Ev_av_hwdevice_ctx_create s3 in
                if open2_ret e < 0 then (Inl (- 1), s4)
                else (Inr (find_best_stream_ret e), call Ev_avcodec_open2 s4))"

text \<open>Lines 335 to 339. \<^verbatim>\<open>fclose\<close> on a stream that was closed is undefined.\<close>

definition teardown :: "state \<Rightarrow> pass_end \<times> state" where
  "teardown s =
     (if output_file s \<and> file_closed s then (Broken, s)
      else
        let s1 = (if output_file s then call Ev_fclose (s\<lparr>file_closed := True\<rparr>) else s)
        in (Completed,
            call Ev_av_buffer_unref (call Ev_avformat_close_input (call Ev_avcodec_free_context s1))))"

text \<open>Lines 317 to 339: the read loop, the flush and the teardown.\<close>

definition decode_pass :: "int \<Rightarrow> main_vars \<Rightarrow> pass_env \<Rightarrow> state \<Rightarrow> pass_end \<times> state" where
  "decode_pass video_stream v e s =
     (case read_loop video_stream (open2_ret e) (s\<lparr>frames := frame_count v\<rparr>)
             (read_script e) (receive_script e) of
        (False, s1, ps, decoder) \<Rightarrow> (Broken, s1)
      | (True, s1, ps, decoder) \<Rightarrow>
          (case decode_write s1 (flush_send_ret e) decoder of
             (None, s2, decoder') \<Rightarrow> (Broken, s2)
           | (Some ret, s2, decoder') \<Rightarrow> teardown s2))"

definition run_pass :: "AVHWDeviceType \<Rightarrow> main_vars \<Rightarrow> pass_env \<Rightarrow> state \<Rightarrow> pass_end \<times> state" where
  "run_pass dev_type v e s =
     (case set_up dev_type v e s of
        (Inl r, s') \<Rightarrow> (Aborted r, s')
      | (Inr video_stream, s') \<Rightarrow> decode_pass video_stream v e s')"

section \<open>main\<close>

text \<open>How the program ends: \<^verbatim>\<open>exit\<close>, a \<^verbatim>\<open>return\<close> from \<^verbatim>\<open>main\<close>, or undefined behaviour.\<close>

datatype outcome = Exited int | Returned int | Undefined

text \<open>
  The label \<^verbatim>\<open>loopy\<close> with the jump back to it of lines 341 and 342. \<open>passes k\<close> is what the
  library calls of pass \<open>k\<close> return. \<^verbatim>\<open>--loop_count\<close> wraps around.
\<close>

function loopy :: "AVHWDeviceType \<Rightarrow> (nat \<Rightarrow> pass_env) \<Rightarrow> nat \<Rightarrow> main_vars \<Rightarrow> state \<Rightarrow> outcome \<times> state" where
  "loopy dev_type passes k v s =
     (case run_pass dev_type v (passes k) s of
        (Aborted r, s') \<Rightarrow> (Returned r, s')
      | (Broken, s') \<Rightarrow> (Undefined, s')
      | (Completed, s') \<Rightarrow>
          if 0 < sint (loop_count v - 1)
          then loopy dev_type passes (k + 1) (v\<lparr>loop_count := loop_count v - 1\<rparr>) s'
          else (Returned 0, call Ev_drmprime_out_delete s'))"
  by pat_completeness auto
termination
proof (relation "measure (\<lambda>(dev_type, passes, k, v, s). unat (loop_count v - 1))")
  show "wf (measure (\<lambda>(dev_type, passes, k, v, s). unat (loop_count v - 1)))"
    by simp
next
  fix dev_type :: AVHWDeviceType and passes :: "nat \<Rightarrow> pass_env" and k :: nat
    and v :: main_vars and s s' :: state
  assume "0 < sint (loop_count v - 1)"
  then have "loop_count v - 1 \<noteq> 0"
    by auto
  then have "unat (loop_count v - 1 - 1) < unat (loop_count v - 1)"
    using unat_minus_one [of "loop_count v - 1"] unat_gt_0 [of "loop_count v - 1"] by linarith
  then show "((dev_type, passes, k + 1, v\<lparr>loop_count := loop_count v - 1\<rparr>, s'),
              (dev_type, passes, k, v, s))
             \<in> measure (\<lambda>(dev_type, passes, k, v, s). unat (loop_count v - 1))"
    by simp
qed

section \<open>The argument loop\<close>

text \<open>\<^verbatim>\<open>a[0][0] == '-'\<close>; the first character of an empty string is its terminator.\<close>

definition dash :: "string \<Rightarrow> bool" where
  "dash arg = (case arg of [] \<Rightarrow> False | c # cs \<Rightarrow> c = CHR ''-'')"

text \<open>
  The loop ends in \<^verbatim>\<open>usage()\<close>, which exits with status 1, or with the locals set. The
  third case is a read of \<^verbatim>\<open>argv\<close> past its terminating \<^verbatim>\<open>NULL\<close>.
\<close>

datatype parsed = Usage | Args main_vars | Out_of_bounds

text \<open>
  Lines 224 to 228, with \<open>n\<close> as the loop left it. \<open>a\<close> is the rest of \<^verbatim>\<open>argv\<close> from the
  pointer \<^verbatim>\<open>a\<close> on; at its end \<^verbatim>\<open>a[0]\<close> is the \<^verbatim>\<open>NULL\<close> that ends \<^verbatim>\<open>argv\<close>.
\<close>

definition last_arg :: "int \<Rightarrow> string list \<Rightarrow> main_vars \<Rightarrow> parsed" where
  "last_arg n a v =
     (if n \<noteq> 0 then Usage
      else Args (v\<lparr>in_file := (case a of [] \<Rightarrow> None | x # xs \<Rightarrow> Some x)\<rparr>))"

text \<open>
  The loop of lines 191 to 222, before the test of its condition. \<^verbatim>\<open>n-- > 0\<close> decrements
  \<open>n\<close> whatever the test gives. \<open>strtol\<close> is the libc function with base 0: it gives the
  value and the rest of the string from \<^verbatim>\<open>e\<close> on.
\<close>

function parse_loop :: "(string \<Rightarrow> long \<times> string) \<Rightarrow> int \<Rightarrow> string list \<Rightarrow> main_vars \<Rightarrow> parsed" where
  "parse_loop strtol n a v =
     (if 0 < n then
        (case a of
           [] \<Rightarrow> Out_of_bounds
         | arg # a1 \<Rightarrow>
             if \<not> dash arg then last_arg (n - 1) a v
             else if arg = ''-l'' \<or> arg = ''--loop'' then
               (if n - 1 = 0 then Usage
                else case a1 of
                  [] \<Rightarrow> Out_of_bounds
                | x # a2 \<Rightarrow>
                    (case strtol x of (r, e) \<Rightarrow>
                       if e \<noteq> [] then Usage
                       else parse_loop strtol (n - 1 - 1) a2 (v\<lparr>loop_count := r\<rparr>)))
             else if arg = ''-f'' \<or> arg = ''--frames'' then
               (if n - 1 = 0 then Usage
                else case a1 of
                  [] \<Rightarrow> Out_of_bounds
                | x # a2 \<Rightarrow>
                    (case strtol x of (r, e) \<Rightarrow>
                       if e \<noteq> [] then Usage
                       else parse_loop strtol (n - 1 - 1) a2 (v\<lparr>frame_count := r\<rparr>)))
             else if arg = ''-o'' then
               (if n - 1 = 0 then Usage
                else case a1 of
                  [] \<Rightarrow> Out_of_bounds
                | x # a2 \<Rightarrow> parse_loop strtol (n - 1 - 1) a2 (v\<lparr>out_name := Some x\<rparr>))
             else last_arg (n - 1) a1 v)
      else last_arg (n - 1) a v)"
  by pat_completeness auto
termination
  by (relation "measure (\<lambda>(strtol, n, a, v). nat n)") auto

text \<open>
  Lines 183 to 229. \<open>argv\<close> holds the arguments after the program's name, so \<^verbatim>\<open>argc - 1\<close>
  is its length.
\<close>

definition parse_args :: "(string \<Rightarrow> long \<times> string) \<Rightarrow> string list \<Rightarrow> parsed" where
  "parse_args strtol argv =
     parse_loop strtol (int (length argv)) argv
       \<lparr>loop_count = 0, frame_count = - 1, out_name = None, in_file = None\<rparr>"

text \<open>
  What the calls outside the passes return: \<^verbatim>\<open>strtol\<close>, the device type found for \<^verbatim>\<open>"drm"\<close>,
  whether \<^verbatim>\<open>drmprime_out_new\<close> and \<^verbatim>\<open>fopen\<close> gave a handle, and the calls of each pass.
\<close>

record env =
  strtol_fn :: "string \<Rightarrow> long \<times> string"
  hwdevice_type :: AVHWDeviceType
  drmprime_out_ok :: bool
  fopen_ok :: bool
  pass_envs :: "nat \<Rightarrow> pass_env"

text \<open>Static storage starts zeroed: pixel format number 0, no file, no frame count.\<close>

definition initial :: state where
  "initial = \<lparr>hw_pix_fmt = AV_PIX_FMT_OTHER 0, output_file = False, file_closed = False,
     frames = 0, trace = []\<rparr>"

definition main :: "env \<Rightarrow> string list \<Rightarrow> outcome \<times> state" where
  "main e argv =
     (case parse_args (strtol_fn e) argv of
        Usage \<Rightarrow> (Exited 1, initial)
      | Out_of_bounds \<Rightarrow> (Undefined, initial)
      | Args v \<Rightarrow>
          if hwdevice_type e = AV_HWDEVICE_TYPE_NONE then (Returned (- 1), initial)
          else if \<not> drmprime_out_ok e then (Returned 1, initial)
          else
            let s1 = call Ev_drmprime_out_new initial in
            case out_name v of
              None \<Rightarrow> loopy (hwdevice_type e) (pass_envs e) 0 v s1
            | Some path \<Rightarrow>
                if \<not> fopen_ok e then (Returned (- 1), s1)
                else loopy (hwdevice_type e) (pass_envs e) 0 v
                       (call (Ev_fopen path) (s1\<lparr>output_file := True\<rparr>)))"

section \<open>Reading a run\<close>

text \<open>The frames handed to the display, the passes begun and the passes torn down.\<close>

definition displayed :: "event list \<Rightarrow> AVFrame list" where
  "displayed tr = concat (map (\<lambda>ev. case ev of Ev_drmprime_out_display f \<Rightarrow> [f] | _ \<Rightarrow> []) tr)"

definition passes_begun :: "event list \<Rightarrow> nat" where
  "passes_begun tr = length (filter (\<lambda>ev. case ev of Ev_avformat_open_input f \<Rightarrow> True | _ \<Rightarrow> False) tr)"

definition passes_closed :: "event list \<Rightarrow> nat" where
  "passes_closed tr = length (filter (\<lambda>ev. ev = Ev_avformat_close_input) tr)"

text \<open>The calls that \<^verbatim>\<open>decode_write\<close> makes.\<close>

definition decoding :: "event \<Rightarrow> bool" where
  "decoding ev = (case ev of Ev_drmprime_out_display f \<Rightarrow> True | Ev_fwrite f n w \<Rightarrow> True | _ \<Rightarrow> False)"

text \<open>
  \<open>s'\<close> comes from \<open>s\<close> by decoding only: more calls of the display and of \<^verbatim>\<open>fwrite\<close>,
  the same format and the same file.
\<close>

definition decoded_from :: "state \<Rightarrow> state \<Rightarrow> bool" where
  "decoded_from s s' =
     (output_file s' = output_file s \<and> file_closed s' = file_closed s
      \<and> hw_pix_fmt s' = hw_pix_fmt s
      \<and> (\<exists>evs. trace s' = trace s @ evs \<and> list_all decoding evs))"

text \<open>
  The frames displayed so far plus the frames still allowed, \<^verbatim>\<open>frames\<close> read as unsigned;
  and what every stretch of decoding keeps of it: the sum never falls, rises by one at
  most, and has not risen when \<^verbatim>\<open>frames\<close> has come down to 0.
\<close>

definition potential :: "state \<Rightarrow> nat" where
  "potential s = length (displayed (trace s)) + unat (frames s)"

definition budget_kept :: "state \<Rightarrow> state \<Rightarrow> bool" where
  "budget_kept s s' =
     (potential s \<le> potential s' \<and> potential s' \<le> potential s + 1
      \<and> (frames s \<noteq> 0 \<and> frames s' = 0 \<longrightarrow> potential s' = potential s)
      \<and> (frames s = 0 \<longrightarrow> frames s' = 0))"

text \<open>Every check of lines 256 to 315 passes.\<close>

definition set_up_succeeds :: "AVHWDeviceType \<Rightarrow> pass_env \<Rightarrow> bool" where
  "set_up_succeeds dev_type e =
     (open_input_ret e = 0 \<and> 0 \<le> find_stream_info_ret e \<and> 0 \<le> find_best_stream_ret e
      \<and> negotiate dev_type (best_decoder e) (decoder_by_name e) \<noteq> None
      \<and> alloc_context_ok e \<and> 0 \<le> parameters_to_context_ret e
      \<and> 0 \<le> hwdevice_ctx_create_ret e \<and> 0 \<le> open2_ret e)"

section \<open>An environment for the examples\<close>

text \<open>
  \<^verbatim>\<open>strtol\<close> on the strings the examples pass to it; a decoder that gives frame \<open>n\<close> of size
  16 by \<open>n\<close> on its turn \<open>n\<close>, in the hardware format; a codec with two hardware
  configurations, the second for the DRM device; a file of \<open>n\<close> video packets that decode
  to \<open>n\<close> frames; and a machine where every call succeeds.
\<close>

definition strtol_ex :: "string \<Rightarrow> long \<times> string" where
  "strtol_ex x =
     (if x = ''0'' then (0, []) else if x = ''1'' then (1, []) else if x = ''2'' then (2, [])
      else if x = ''3'' then (3, []) else (0, x))"

definition frame_ex :: "nat \<Rightarrow> AVFrame" where
  "frame_ex n = \<lparr>format = AV_PIX_FMT_DRM_PRIME, width = 16, height = int n\<rparr>"

definition turn_ex :: "nat \<Rightarrow> receive_step" where
  "turn_ex n = \<lparr>frame_alloc_ok = True, receive_ret = 0, frame = frame_ex n, transfer_ret = 0,
     sw_frame = (frame_ex n)\<lparr>format := AV_PIX_FMT_OTHER 0\<rparr>, buffer_size = 24, malloc_ok = True,
     copy_ret = 24, fwrite_ret = 24\<rparr>"

definition packet_ex :: read_step where
  "packet_ex = \<lparr>read_ret = 0, stream_index = 0, send_ret = 0\<rparr>"

definition codec_ex :: AVCodec where
  "codec_ex = \<lparr>codec_name = ''hevc'', codec_id = AV_CODEC_ID_OTHER 173,
     hw_configs =
       [\<lparr>pix_fmt = AV_PIX_FMT_OTHER 44, methods = 1, device_type = AV_HWDEVICE_TYPE_OTHER 3\<rparr>,
        \<lparr>pix_fmt = AV_PIX_FMT_DRM_PRIME, methods = 3, device_type = AV_HWDEVICE_TYPE_DRM\<rparr>]\<rparr>"

definition pass_ex :: "nat \<Rightarrow> pass_env" where
  "pass_ex n = \<lparr>open_input_ret = 0, find_stream_info_ret = 0, find_best_stream_ret = 0,
     best_decoder = codec_ex, decoder_by_name = None, alloc_context_ok = True,
     parameters_to_context_ret = 0, hwdevice_ctx_create_ret = 0, open2_ret = 0,
     read_script = replicate n packet_ex, flush_send_ret = 0,
     receive_script = map turn_ex [0..<n]\<rparr>"

definition env_ex :: "nat \<Rightarrow> env" where
  "env_ex n = \<lparr>strtol_fn = strtol_ex, hwdevice_type = AV_HWDEVICE_TYPE_DRM,
     drmprime_out_ok = True, fopen_ok = True, pass_envs = (\<lambda>k. pass_ex n)\<rparr>"

text \<open>
  Three machines where one call goes wrong: \<^verbatim>\<open>avcodec_open2\<close> fails; the input cannot be
  opened; every \<^verbatim>\<open>fwrite\<close> writes nothing.
\<close>

definition env_open2_fails :: env where
  "env_open2_fails = (env_ex 1)\<lparr>pass_envs := (\<lambda>k. (pass_ex 1)\<lparr>open2_ret := - 1\<rparr>)\<rparr>"

definition env_no_input :: env where
  "env_no_input = (env_ex 1)\<lparr>pass_envs := (\<lambda>k. (pass_ex 1)\<lparr>open_input_ret := - 2\<rparr>)\<rparr>"

definition env_short_write :: env where
  "env_short_write = (env_ex 2)\<lparr>pass_envs :=
     (\<lambda>k. (pass_ex 2)\<lparr>receive_script :=
        [(turn_ex 0)\<lparr>fwrite_ret := 0\<rparr>, (turn_ex 1)\<lparr>fwrite_ret := 0\<rparr>]\<rparr>)\<rparr>"

section \<open>Properties\<close>

subsection \<open>What decoding leaves alone\<close>

lemma call_simps [simp]:
  "trace (call ev s) = trace s @ [ev]"
  "output_file (call ev s) = output_file s"
  "file_closed (call ev s) = file_closed s"
  "hw_pix_fmt (call ev s) = hw_pix_fmt s"
  "frames (call ev s) = frames s"
  by (simp_all add: call_def)

lemma at_fail_state: "snd (at_fail ret s) = s"
  by (simp add: at_fail_def)

lemma dump_frame_keeps:
  assumes "dump_frame s x = (d, s')"
  shows "output_file s' = output_file s \<and> file_closed s' = file_closed s
       \<and> hw_pix_fmt s' = hw_pix_fmt s \<and> frames s' = frames s
       \<and> (\<exists>evs. trace s' = trace s @ evs \<and> list_all decoding evs \<and> displayed evs = [])
       \<and> (d = Stale_stream \<longrightarrow> file_closed s)"
  using assms
  by (auto simp: dump_frame_def Let_def decoding_def displayed_def split: if_splits)

lemma count_frame_keeps:
  assumes "count_frame s ret = (r, s')"
  shows "output_file s' = output_file s \<and> file_closed s' = file_closed s
       \<and> hw_pix_fmt s' = hw_pix_fmt s \<and> trace s' = trace s"
  using assms by (auto simp: count_frame_def Let_def split: if_splits)


lemma decoded_from_refl: "decoded_from s s"
  by (simp add: decoded_from_def)

lemma decoded_from_trans: "decoded_from s s' \<Longrightarrow> decoded_from s' s'' \<Longrightarrow> decoded_from s s''"
  by (auto simp: decoded_from_def)

lemma for_body_keeps:
  assumes "for_body s x = (fl, s')"
  shows "decoded_from s s' \<and> (fl = Stale \<longrightarrow> output_file s \<and> file_closed s)"
proof (cases "\<not> frame_alloc_ok x \<or> receive_ret x = AVERROR EAGAIN \<or> receive_ret x = AVERROR_EOF
    \<or> receive_ret x < 0")
  case True
  with assms show ?thesis
    by (auto simp: for_body_def at_fail_def decoded_from_def split: if_splits)
next
  case False
  define s1 where "s1 = call (Ev_drmprime_out_display (frame x)) s"
  obtain d s2 where d: "(if output_file s1 then dump_frame s1 x else (Fall_through (receive_ret x), s1)) = (d, s2)"
    by (cases "(if output_file s1 then dump_frame s1 x else (Fall_through (receive_ret x), s1))")
  have k2: "decoded_from s s2 \<and> (d = Stale_stream \<longrightarrow> output_file s \<and> file_closed s)"
  proof (cases "output_file s1")
    case True
    with d have "dump_frame s1 x = (d, s2)" by simp
    from dump_frame_keeps [OF this] True show ?thesis
      by (auto simp: s1_def decoding_def decoded_from_def)
  next
    case False
    with d show ?thesis by (auto simp: s1_def decoding_def decoded_from_def)
  qed
  from False assms d have fb: "(case d of Stale_stream \<Rightarrow> (Stale, s2) | Goto_fail ret \<Rightarrow> at_fail ret s2
      | Fall_through ret \<Rightarrow> (case count_frame s2 ret of (ret', s3) \<Rightarrow> at_fail ret' s3)) = (fl, s')"
    by (simp add: for_body_def s1_def [symmetric] Let_def)
  show ?thesis
  proof (cases d)
    case (Goto_fail r)
    with fb k2 show ?thesis by (auto simp: at_fail_def split: if_splits)
  next
    case (Fall_through r)
    obtain r' s3 where c: "count_frame s2 r = (r', s3)" by (cases "count_frame s2 r")
    from count_frame_keeps [OF c] fb Fall_through c k2 show ?thesis
      by (auto simp: at_fail_def decoded_from_def split: if_splits)
  next
    case Stale_stream
    with fb k2 show ?thesis by auto
  qed
qed

lemma receive_loop_keeps:
  "receive_loop s xs = (r, s', xs') \<Longrightarrow>
   decoded_from s s' \<and> (r = None \<longrightarrow> output_file s \<and> file_closed s)"
proof (induction xs arbitrary: s)
  case Nil
  then show ?case by (auto simp: decoded_from_refl)
next
  case (Cons x xs)
  obtain fl s1 where b: "for_body s x = (fl, s1)" by (cases "for_body s x")
  note k = for_body_keeps [OF b]
  show ?case
  proof (cases fl)
    case (Return ret)
    with Cons.prems b k show ?thesis by auto
  next
    case Continue
    with Cons.prems b have "receive_loop s1 xs = (r, s', xs')" by simp
    from Cons.IH [OF this] k show ?thesis
      by (auto intro: decoded_from_trans simp: decoded_from_def)
  next
    case Stale
    with Cons.prems b k show ?thesis by auto
  qed
qed

lemma decode_write_keeps:
  "decode_write s send decoder = (r, s', decoder') \<Longrightarrow>
   decoded_from s s' \<and> (r = None \<longrightarrow> output_file s \<and> file_closed s)"
  by (auto simp: decode_write_def decoded_from_refl split: if_splits dest: receive_loop_keeps)

lemma read_loop_keeps:
  "read_loop vs ret s ps decoder = (ok, s', ps', decoder') \<Longrightarrow>
   decoded_from s s' \<and> (\<not> ok \<longrightarrow> output_file s \<and> file_closed s)"
proof (induction ps arbitrary: ret s decoder)
  case Nil
  then show ?case by (auto simp: decoded_from_refl)
next
  case (Cons p ps)
  show ?case
  proof (cases "ret < 0 \<or> read_ret p < 0")
    case True
    with Cons.prems show ?thesis by (auto simp: decoded_from_refl split: if_splits)
  next
    case False
    show ?thesis
    proof (cases "vs = stream_index p")
      case True
      obtain r s1 d1 where w: "decode_write s (send_ret p) decoder = (r, s1, d1)"
        by (cases "decode_write s (send_ret p) decoder")
      note k = decode_write_keeps [OF w]
      show ?thesis
      proof (cases r)
        case None
        with Cons.prems False True w k show ?thesis by auto
      next
        case (Some ret')
        with Cons.prems False True w have "read_loop vs ret' s1 ps d1 = (ok, s', ps', decoder')"
          by simp
        from Cons.IH [OF this] k show ?thesis
          by (auto intro: decoded_from_trans simp: decoded_from_def)
      qed
    next
      case neq: False
      with Cons.prems False have "read_loop vs (read_ret p) s ps decoder = (ok, s', ps', decoder')"
        by simp
      from Cons.IH [OF this] show ?thesis .
    qed
  qed
qed


lemma set_up_succeeds_result:
  assumes "set_up_succeeds dev_type e"
  shows "\<exists>s'. set_up dev_type v e s = (Inr (find_best_stream_ret e), s')
       \<and> output_file s' = output_file s \<and> file_closed s' = file_closed s
       \<and> trace s' = trace s @ [Ev_avformat_open_input (in_file v), Ev_avcodec_alloc_context3,
            Ev_av_hwdevice_ctx_create, Ev_avcodec_open2]"
  using assms
  by (auto simp: set_up_succeeds_def set_up_def hw_decoder_init_def Let_def)

lemma set_up_fails_result:
  assumes "\<not> set_up_succeeds dev_type e"
  shows "\<exists>r s' evs. set_up dev_type v e s = (Inl r, s') \<and> trace s' = trace s @ evs
       \<and> set evs \<subseteq> {Ev_avformat_open_input (in_file v), Ev_avcodec_alloc_context3,
            Ev_av_hwdevice_ctx_create}"
  using assms
  by (auto simp: set_up_succeeds_def set_up_def hw_decoder_init_def Let_def split: option.splits)

lemma teardown_result:
  assumes "\<not> (output_file s \<and> file_closed s)"
  shows "\<exists>s'. teardown s = (Completed, s') \<and> output_file s' = output_file s
       \<and> file_closed s' = (output_file s \<or> file_closed s)
       \<and> trace s' = trace s @ (if output_file s then [Ev_fclose] else [])
            @ [Ev_avcodec_free_context, Ev_avformat_close_input, Ev_av_buffer_unref]"
  using assms by (auto simp: teardown_def Let_def)

lemma decode_pass_result:
  assumes "\<not> (output_file s \<and> file_closed s)"
  shows "\<exists>s' evs. decode_pass vs v e s = (Completed, s') \<and> output_file s' = output_file s
       \<and> file_closed s' = (output_file s \<or> file_closed s) \<and> list_all decoding evs
       \<and> trace s' = trace s @ evs @ (if output_file s then [Ev_fclose] else [])
            @ [Ev_avcodec_free_context, Ev_avformat_close_input, Ev_av_buffer_unref]"
proof -
  define s0 where "s0 = s\<lparr>frames := frame_count v\<rparr>"
  obtain ok s1 ps d where r: "read_loop vs (open2_ret e) s0 (read_script e) (receive_script e) = (ok, s1, ps, d)"
    by (cases "read_loop vs (open2_ret e) s0 (read_script e) (receive_script e)")
  from read_loop_keeps [OF r] assms have ok: ok and k1: "decoded_from s0 s1"
    by (auto simp: s0_def)
  obtain w s2 d' where f: "decode_write s1 (flush_send_ret e) d = (w, s2, d')"
    by (cases "decode_write s1 (flush_send_ret e) d")
  from decode_write_keeps [OF f] k1 assms have w: "w \<noteq> None" and k2: "decoded_from s1 s2"
    by (auto simp: s0_def decoded_from_def)
  from decoded_from_trans [OF k1 k2] have k: "decoded_from s0 s2" .
  with assms have "\<not> (output_file s2 \<and> file_closed s2)"
    by (auto simp: decoded_from_def s0_def)
  from teardown_result [OF this] obtain s' where t: "teardown s2 = (Completed, s')"
    "output_file s' = output_file s2" "file_closed s' = (output_file s2 \<or> file_closed s2)"
    "trace s' = trace s2 @ (if output_file s2 then [Ev_fclose] else [])
            @ [Ev_avcodec_free_context, Ev_avformat_close_input, Ev_av_buffer_unref]"
    by blast
  from r f ok w t(1) have "decode_pass vs v e s = (Completed, s')"
    by (auto simp: decode_pass_def s0_def)
  with t k show ?thesis
    by (auto simp: decoded_from_def s0_def)
qed

lemma run_pass_result:
  assumes "set_up_succeeds dev_type e" and "\<not> (output_file s \<and> file_closed s)"
  shows "\<exists>s' evs. run_pass dev_type v e s = (Completed, s') \<and> output_file s' = output_file s
       \<and> file_closed s' = (output_file s \<or> file_closed s) \<and> list_all decoding evs
       \<and> trace s' = trace s @ [Ev_avformat_open_input (in_file v), Ev_avcodec_alloc_context3,
            Ev_av_hwdevice_ctx_create, Ev_avcodec_open2] @ evs
            @ (if output_file s then [Ev_fclose] else [])
            @ [Ev_avcodec_free_context, Ev_avformat_close_input, Ev_av_buffer_unref]"
proof -
  from set_up_succeeds_result [OF assms(1), of v s] obtain s1 where
    s1: "set_up dev_type v e s = (Inr (find_best_stream_ret e), s1)"
    "output_file s1 = output_file s" "file_closed s1 = file_closed s"
    "trace s1 = trace s @ [Ev_avformat_open_input (in_file v), Ev_avcodec_alloc_context3,
            Ev_av_hwdevice_ctx_create, Ev_avcodec_open2]"
    by blast
  with assms(2) have "\<not> (output_file s1 \<and> file_closed s1)" by simp
  from decode_pass_result [OF this, of "find_best_stream_ret e" v e] s1 show ?thesis
    by (auto simp: run_pass_def)
qed

lemma decoding_no_pass: "list_all decoding evs \<Longrightarrow> passes_begun evs = 0 \<and> passes_closed evs = 0"
  by (induction evs) (auto simp: passes_begun_def passes_closed_def decoding_def split: event.splits)

lemma passes_append:
  "passes_begun (xs @ ys) = passes_begun xs + passes_begun ys"
  "passes_closed (xs @ ys) = passes_closed xs + passes_closed ys"
  by (simp_all add: passes_begun_def passes_closed_def)

lemma run_pass_counts:
  assumes "set_up_succeeds dev_type e" and "\<not> (output_file s \<and> file_closed s)"
  shows "\<exists>s'. run_pass dev_type v e s = (Completed, s') \<and> output_file s' = output_file s
       \<and> file_closed s' = (output_file s \<or> file_closed s)
       \<and> passes_begun (trace s') = passes_begun (trace s) + 1
       \<and> passes_closed (trace s') = passes_closed (trace s) + 1"
proof -
  from run_pass_result [OF assms, of v] obtain s' evs where
    r: "run_pass dev_type v e s = (Completed, s')" "output_file s' = output_file s"
      "file_closed s' = (output_file s \<or> file_closed s)" "list_all decoding evs"
      "trace s' = trace s @ [Ev_avformat_open_input (in_file v), Ev_avcodec_alloc_context3,
            Ev_av_hwdevice_ctx_create, Ev_avcodec_open2] @ evs
            @ (if output_file s then [Ev_fclose] else [])
            @ [Ev_avcodec_free_context, Ev_avformat_close_input, Ev_av_buffer_unref]"
    by blast
  from decoding_no_pass [OF r(4)] r(5)
  have "passes_begun (trace s') = passes_begun (trace s) + 1"
    and "passes_closed (trace s') = passes_closed (trace s) + 1"
    by (simp_all add: passes_append) (simp_all add: passes_begun_def passes_closed_def)
  with r show ?thesis by blast
qed

lemma sint_dec:
  fixes x :: long
  assumes "sint x \<noteq> - (2 ^ 63)"
  shows "sint (x - 1) = sint x - 1"
proof -
  have "- (2 ^ 63) \<le> sint x" "sint x < 2 ^ 63"
    using sint_ge [of x] sint_lt [of x] by simp_all
  with assms have "- (2 ^ 63) \<le> sint x - 1" "sint x - 1 < 2 ^ 63" by simp_all
  then have "signed_take_bit 63 (sint x - 1) = sint x - 1"
    by (simp add: signed_take_bit_int_eq_self)
  then show ?thesis by (simp add: sint_word_ariths)
qed

lemma loopy_passes:
  "\<forall>k. set_up_succeeds dev_type (passes k) \<Longrightarrow>
    sint (loop_count v) \<noteq> - (2 ^ 63) \<Longrightarrow>
    \<not> output_file s \<or> (\<not> file_closed s \<and> sint (loop_count v) \<le> 1) \<Longrightarrow>
    \<exists>s'. loopy dev_type passes k v s = (Returned 0, s')
      \<and> passes_begun (trace s') = passes_begun (trace s) + nat (max (sint (loop_count v)) 1)
      \<and> passes_closed (trace s') = passes_closed (trace s) + nat (max (sint (loop_count v)) 1)"
proof (induction dev_type passes k v s rule: loopy.induct)
  case (1 dev_type passes k v s)
  from "1.prems"(3) have ns: "\<not> (output_file s \<and> file_closed s)" by auto
  from "1.prems"(1) have su: "set_up_succeeds dev_type (passes k)" by simp
  from run_pass_counts [OF su ns, of v] obtain s1 where
    r: "run_pass dev_type v (passes k) s = (Completed, s1)" "output_file s1 = output_file s"
      "file_closed s1 = (output_file s \<or> file_closed s)"
      "passes_begun (trace s1) = passes_begun (trace s) + 1"
      "passes_closed (trace s1) = passes_closed (trace s) + 1"
    by blast
  note d = sint_dec [OF "1.prems"(2)]
  show ?case
  proof (cases "0 < sint (loop_count v - 1)")
    case True
    with d have big: "2 \<le> sint (loop_count v)" by simp
    with "1.prems"(3) r(2) have no: "\<not> output_file s1" by auto
    let ?v = "v\<lparr>loop_count := loop_count v - 1\<rparr>"
    have "\<exists>s'. loopy dev_type passes (k + 1) ?v s1 = (Returned 0, s')
      \<and> passes_begun (trace s') = passes_begun (trace s1) + nat (max (sint (loop_count ?v)) 1)
      \<and> passes_closed (trace s') = passes_closed (trace s1) + nat (max (sint (loop_count ?v)) 1)"
      using True no "1.prems"(1) by (intro "1.IH" [OF r(1) [symmetric] refl True]) simp_all
    then obtain s' where
      l: "loopy dev_type passes (k + 1) ?v s1 = (Returned 0, s')"
        "passes_begun (trace s') = passes_begun (trace s1) + nat (max (sint (loop_count ?v)) 1)"
        "passes_closed (trace s') = passes_closed (trace s1) + nat (max (sint (loop_count ?v)) 1)"
      by blast
    from r(1) True l(1) have "loopy dev_type passes k v s = (Returned 0, s')"
      by (subst loopy.simps) simp
    moreover from l(2,3) r(4,5) d big
    have "passes_begun (trace s') = passes_begun (trace s) + nat (max (sint (loop_count v)) 1)"
      and "passes_closed (trace s') = passes_closed (trace s) + nat (max (sint (loop_count v)) 1)"
      by simp_all
    ultimately show ?thesis by blast
  next
    case False
    with d have small: "sint (loop_count v) \<le> 1" by simp
    from r(1) False have "loopy dev_type passes k v s = (Returned 0, call Ev_drmprime_out_delete s1)"
      by (subst loopy.simps) simp
    moreover from small r(4,5)
    have "passes_begun (trace (call Ev_drmprime_out_delete s1))
        = passes_begun (trace s) + nat (max (sint (loop_count v)) 1)"
      and "passes_closed (trace (call Ev_drmprime_out_delete s1))
        = passes_closed (trace s) + nat (max (sint (loop_count v)) 1)"
      by (simp_all add: passes_append) (simp_all add: passes_begun_def passes_closed_def max_def)
    ultimately show ?thesis by blast
  qed
qed

lemma parse_loop_default:
  "parse_loop strtol n a v = Args v' \<Longrightarrow> ''-l'' \<notin> set a \<Longrightarrow> ''--loop'' \<notin> set a \<Longrightarrow>
   loop_count v' = loop_count v"
proof (induction strtol n a v rule: parse_loop.induct)
  case (1 strtol n a v)
  show ?case
  proof (cases a)
    case Nil
    with "1.prems" show ?thesis
      by (subst (asm) parse_loop.simps) (auto simp: last_arg_def split: if_splits)
  next
    case (Cons arg a1)
    show ?thesis
    proof (cases a1)
      case Nil
      with Cons "1.prems" show ?thesis
        by (subst (asm) parse_loop.simps) (auto simp: last_arg_def split: if_splits)
    next
      case (Cons x a2)
      with \<open>a = arg # a1\<close> "1.prems" "1.IH" show ?thesis
        apply (subst (asm) parse_loop.simps)
        apply (auto simp: last_arg_def split: if_splits prod.splits)
        done
    qed
  qed
qed

subsection \<open>The frame count\<close>

text \<open>
  A pass displays at most one frame more than its frame count (two for a count of 0),
  its read loop at most as many as the count; \<^verbatim>\<open>fwrite\<close>'s result never sends the loop to
  \<^verbatim>\<open>fail\<close>; and with no dump file and a count that the stream does not reach, one call of
  \<^verbatim>\<open>decode_write\<close> displays every frame the decoder has.
\<close>

lemma displayed_append [simp]: "displayed (xs @ ys) = displayed xs @ displayed ys"
  by (simp add: displayed_def)

lemma displayed_single [simp]:
  "displayed [Ev_drmprime_out_display f] = [f]"
  "displayed [Ev_fwrite f n w] = []"
  by (simp_all add: displayed_def)

lemma dump_frame_displayed:
  "dump_frame s x = (d, s') \<Longrightarrow> displayed (trace s') = displayed (trace s) \<and> frames s' = frames s"
  by (auto simp: dump_frame_def Let_def split: if_splits)

lemma count_frame_budget:
  assumes "count_frame s ret = (r, s')" and "0 \<le> ret"
  shows "trace s' = trace s"
    and "frames s = 0 \<Longrightarrow> frames s' = 0 \<and> r < 0"
    and "frames s \<noteq> 0 \<Longrightarrow> unat (frames s') + 1 = unat (frames s)"
    and "0 \<le> r \<longleftrightarrow> frames s' \<noteq> 0"
proof -
  show "trace s' = trace s"
    using assms by (auto simp: count_frame_def Let_def split: if_splits)
  show "frames s = 0 \<Longrightarrow> frames s' = 0 \<and> r < 0"
    using assms by (auto simp: count_frame_def Let_def split: if_splits)
  show "frames s \<noteq> 0 \<Longrightarrow> unat (frames s') + 1 = unat (frames s)"
  proof -
    assume n: "frames s \<noteq> 0"
    with assms have "frames s' = frames s - 1"
      by (auto simp: count_frame_def Let_def split: if_splits)
    with n show ?thesis
      using unat_minus_one [of "frames s"] unat_gt_0 [of "frames s"] by simp
  qed
  show "0 \<le> r \<longleftrightarrow> frames s' \<noteq> 0"
    using assms by (auto simp: count_frame_def Let_def split: if_splits)
qed


lemma budget_kept_refl: "budget_kept s s"
  by (simp add: budget_kept_def)

lemma for_body_budget:
  assumes "for_body s x = (fl, s')"
  shows "budget_kept s s' \<and> (fl = Continue \<longrightarrow> potential s' = potential s \<and> frames s' \<noteq> 0)"
proof (cases "\<not> frame_alloc_ok x \<or> receive_ret x = AVERROR EAGAIN \<or> receive_ret x = AVERROR_EOF
    \<or> receive_ret x < 0")
  case True
  with assms have "s' = s \<and> fl \<noteq> Continue"
    by (auto simp: for_body_def at_fail_def AVERROR_def ENOMEM_def split: if_splits)
  then show ?thesis by (simp add: budget_kept_refl)
next
  case False
  define s1 where "s1 = call (Ev_drmprime_out_display (frame x)) s"
  obtain d s2 where d: "(if output_file s1 then dump_frame s1 x else (Fall_through (receive_ret x), s1)) = (d, s2)"
    by (cases "(if output_file s1 then dump_frame s1 x else (Fall_through (receive_ret x), s1))")
  have k2: "displayed (trace s2) = displayed (trace s) @ [frame x] \<and> frames s2 = frames s"
  proof (cases "output_file s1")
    case True
    with d have "dump_frame s1 x = (d, s2)" by simp
    from dump_frame_displayed [OF this] show ?thesis
      by (simp add: s1_def)
  next
    case False
    with d show ?thesis by (auto simp: s1_def)
  qed
  then have p2: "potential s2 = potential s + 1" and f2: "frames s2 = frames s"
    by (simp_all add: potential_def)
  have pos: "d = Fall_through r \<Longrightarrow> 0 \<le> r" for r
    using d False by (auto simp: dump_frame_def Let_def split: if_splits)
  have neg: "d = Goto_fail r \<Longrightarrow> r < 0" for r
    using d False by (auto simp: dump_frame_def Let_def AVERROR_def ENOMEM_def split: if_splits)
  from False assms d have fb: "(case d of Stale_stream \<Rightarrow> (Stale, s2) | Goto_fail ret \<Rightarrow> at_fail ret s2
      | Fall_through ret \<Rightarrow> (case count_frame s2 ret of (ret', s3) \<Rightarrow> at_fail ret' s3)) = (fl, s')"
    by (simp add: for_body_def s1_def [symmetric] Let_def)
  show ?thesis
  proof (cases d)
    case (Goto_fail r)
    with fb neg [OF Goto_fail] have "s' = s2 \<and> fl \<noteq> Continue"
      by (auto simp: at_fail_def)
    with p2 f2 show ?thesis by (simp add: budget_kept_def)
  next
    case Stale_stream
    with fb have "s' = s2 \<and> fl \<noteq> Continue" by auto
    with p2 f2 show ?thesis by (simp add: budget_kept_def)
  next
    case (Fall_through r)
    obtain r' s3 where c: "count_frame s2 r = (r', s3)" by (cases "count_frame s2 r")
    note cb = count_frame_budget [OF c pos [OF Fall_through]]
    from fb Fall_through c have e: "s' = s3" "fl = Continue \<longleftrightarrow> 0 \<le> r'"
      by (auto simp: at_fail_def split: if_splits)
    show ?thesis
    proof (cases "frames s = 0")
      case True
      with cb f2 have "frames s3 = 0" "r' < 0" "trace s3 = trace s2" by simp_all
      with e p2 f2 True show ?thesis
        by (simp add: budget_kept_def potential_def)
    next
      case nz: False
      with cb f2 have "unat (frames s3) + 1 = unat (frames s)" "trace s3 = trace s2" by simp_all
      with k2 have "potential s3 = potential s" by (simp add: potential_def)
      with e cb(4) nz show ?thesis
        by (simp add: budget_kept_def)
    qed
  qed
qed

lemma receive_loop_budget:
  "receive_loop s xs = (r, s', xs') \<Longrightarrow>
   budget_kept s s'
   \<and> ((\<exists>ret. r = Some ret \<and> 0 \<le> ret) \<longrightarrow>
        potential s' = potential s \<and> (frames s \<noteq> 0 \<longrightarrow> frames s' \<noteq> 0))"
proof (induction xs arbitrary: s)
  case Nil
  then show ?case by (auto simp: budget_kept_refl)
next
  case (Cons x xs)
  obtain fl s1 where b: "for_body s x = (fl, s1)" by (cases "for_body s x")
  note k = for_body_budget [OF b]
  show ?case
  proof (cases fl)
    case (Return ret)
    with Cons.prems b have e: "s' = s1" "r = Some ret" by simp_all
    have "0 \<le> ret \<Longrightarrow> s1 = s"
      using b Return
      by (auto simp: for_body_def at_fail_def Let_def split: if_splits prod.splits dumped.splits)
    with e k show ?thesis by (auto simp: budget_kept_refl)
  next
    case Stale
    with Cons.prems b k show ?thesis by auto
  next
    case Continue
    with Cons.prems b have "receive_loop s1 xs = (r, s', xs')" by simp
    from Cons.IH [OF this] k Continue show ?thesis
      by (auto simp: budget_kept_def)
  qed
qed


lemma decode_write_budget:
  "decode_write s send decoder = (r, s', decoder') \<Longrightarrow>
   budget_kept s s'
   \<and> ((\<exists>ret. r = Some ret \<and> 0 \<le> ret) \<longrightarrow>
        potential s' = potential s \<and> (frames s \<noteq> 0 \<longrightarrow> frames s' \<noteq> 0))"
  by (auto simp: decode_write_def budget_kept_refl split: if_splits dest: receive_loop_budget)

lemma budget_kept_step:
  assumes "budget_kept s s1" and "potential s1 = potential s" and "frames s \<noteq> 0 \<longrightarrow> frames s1 \<noteq> 0"
    and "budget_kept s1 s'"
  shows "budget_kept s s'"
  using assms by (auto simp: budget_kept_def)

lemma read_loop_budget:
  "read_loop vs ret s ps decoder = (ok, s', ps', decoder') \<Longrightarrow> budget_kept s s'"
proof (induction ps arbitrary: ret s decoder)
  case Nil
  then show ?case by (auto simp: budget_kept_refl)
next
  case (Cons p ps)
  show ?case
  proof (cases "ret < 0 \<or> read_ret p < 0")
    case True
    with Cons.prems show ?thesis by (auto simp: budget_kept_refl split: if_splits)
  next
    case False
    show ?thesis
    proof (cases "vs = stream_index p")
      case True
      obtain r s1 d1 where w: "decode_write s (send_ret p) decoder = (r, s1, d1)"
        by (cases "decode_write s (send_ret p) decoder")
      note k = decode_write_budget [OF w]
      show ?thesis
      proof (cases r)
        case None
        with Cons.prems False True w k show ?thesis by auto
      next
        case (Some ret')
        with Cons.prems False True w have n: "read_loop vs ret' s1 ps d1 = (ok, s', ps', decoder')"
          by simp
        show ?thesis
        proof (cases "ret' < 0")
          case True
          with n have "s' = s1" by (cases ps) simp_all
          with k show ?thesis by simp
        next
          case nonneg: False
          with k Some have "potential s1 = potential s" "frames s \<noteq> 0 \<longrightarrow> frames s1 \<noteq> 0"
            by auto
          with k Cons.IH [OF n] show ?thesis
            by (blast intro: budget_kept_step)
        qed
      qed
    next
      case neq: False
      with Cons.prems False have "read_loop vs (read_ret p) s ps decoder = (ok, s', ps', decoder')"
        by simp
      from Cons.IH [OF this] show ?thesis .
    qed
  qed
qed

lemma two_calls_bound:
  assumes a: "budget_kept s0 s1" and b: "budget_kept s1 s2"
  shows "length (displayed (trace s2))
       \<le> length (displayed (trace s0)) + max (unat (frames s0)) 1 + 1"
proof (cases "frames s0 = 0")
  case True
  with a b show ?thesis
    by (auto simp: budget_kept_def potential_def)
next
  case nz: False
  show ?thesis
  proof (cases "frames s1 = 0")
    case True
    with a b nz show ?thesis
      by (auto simp: budget_kept_def potential_def)
  next
    case f1: False
    show ?thesis
    proof (cases "frames s2 = 0")
      case True
      with a b f1 show ?thesis
        by (auto simp: budget_kept_def potential_def)
    next
      case False
      then have "1 \<le> unat (frames s2)"
        using unat_gt_0 [of "frames s2"] by simp
      with a b show ?thesis
        by (auto simp: budget_kept_def potential_def)
    qed
  qed
qed

lemma teardown_displayed:
  "teardown s = (pe, s') \<Longrightarrow> displayed (trace s') = displayed (trace s)"
  by (auto simp: teardown_def Let_def displayed_def split: if_splits)

lemma decode_pass_bound:
  assumes "decode_pass vs v e s = (pe, s')"
  shows "length (displayed (trace s'))
       \<le> length (displayed (trace s)) + max (unat (frame_count v)) 1 + 1"
proof -
  define s0 where "s0 = s\<lparr>frames := frame_count v\<rparr>"
  obtain ok s1 ps d where r: "read_loop vs (open2_ret e) s0 (read_script e) (receive_script e) = (ok, s1, ps, d)"
    by (cases "read_loop vs (open2_ret e) s0 (read_script e) (receive_script e)")
  note k1 = read_loop_budget [OF r]
  obtain w s2 d' where f: "decode_write s1 (flush_send_ret e) d = (w, s2, d')"
    by (cases "decode_write s1 (flush_send_ret e) d")
  from decode_write_budget [OF f] have k2: "budget_kept s1 s2" by simp
  have one: "length (displayed (trace s1))
       \<le> length (displayed (trace s0)) + max (unat (frames s0)) 1 + 1"
    using two_calls_bound [OF k1 budget_kept_refl] .
  note two = two_calls_bound [OF k1 k2]
  have t: "trace s0 = trace s" "frames s0 = frame_count v"
    by (simp_all add: s0_def)
  show ?thesis
  proof (cases ok)
    case False
    with r assms have "s' = s1" by (simp add: decode_pass_def s0_def)
    with one t show ?thesis by simp
  next
    case True
    show ?thesis
    proof (cases w)
      case None
      with True r f assms have "s' = s2" by (simp add: decode_pass_def s0_def)
      with two t show ?thesis by simp
    next
      case (Some ret)
      with True r f assms have "teardown s2 = (pe, s')" by (simp add: decode_pass_def s0_def)
      from teardown_displayed [OF this] two t show ?thesis by simp
    qed
  qed
qed

lemma set_up_displayed:
  "set_up dev_type v e s = (r, s') \<Longrightarrow> displayed (trace s') = displayed (trace s)"
  by (auto simp: set_up_def Let_def displayed_def split: if_splits option.splits)

lemma run_pass_bound:
  assumes "run_pass dev_type v e s = (pe, s')"
  shows "length (displayed (trace s'))
       \<le> length (displayed (trace s)) + max (unat (frame_count v)) 1 + 1"
proof -
  obtain r s1 where u: "set_up dev_type v e s = (r, s1)" by (cases "set_up dev_type v e s")
  note d = set_up_displayed [OF u]
  show ?thesis
  proof (cases r)
    case (Inl a)
    with u assms d show ?thesis by (simp add: run_pass_def)
  next
    case (Inr vs)
    with u assms have "decode_pass vs v e s1 = (pe, s')" by (simp add: run_pass_def)
    from decode_pass_bound [OF this] d show ?thesis by simp
  qed
qed


lemma read_loop_bound:
  assumes "read_loop vs ret s ps decoder = (ok, s', ps', decoder')" and "frames s \<noteq> 0"
  shows "length (displayed (trace s')) \<le> length (displayed (trace s)) + unat (frames s)"
proof (cases "frames s' = 0")
  case True
  with read_loop_budget [OF assms(1)] assms(2) show ?thesis
    by (auto simp: budget_kept_def potential_def)
next
  case False
  then have "1 \<le> unat (frames s')"
    using unat_gt_0 [of "frames s'"] by simp
  with read_loop_budget [OF assms(1)] show ?thesis
    by (auto simp: budget_kept_def potential_def)
qed

lemma int_of_size_t_small: "n < 2 ^ 31 \<Longrightarrow> int_of_size_t n = int n"
proof -
  assume n: "n < 2 ^ 31"
  then have "int n < 2 ^ 31" by simp
  then have "signed_take_bit 31 (int n) = int n"
    by (simp add: signed_take_bit_int_eq_self)
  then show ?thesis
    by (simp add: int_of_size_t_def signed_of_nat)
qed

lemma fwrite_check_never_fires:
  assumes "int (fwrite_ret x) \<le> buffer_size x" and "buffer_size x < 2 ^ 31"
    and "dump_frame s x = (d, s')" and "trace s' \<noteq> trace s"
  shows "d = Fall_through (int (fwrite_ret x))"
proof -
  from assms(1,2) have "int (fwrite_ret x) < 2 ^ 31" by linarith
  then have "fwrite_ret x < 2 ^ 31" by simp
  from int_of_size_t_small [OF this] assms(3,4) show ?thesis
    by (auto simp: dump_frame_def Let_def split: if_splits)
qed

lemma unbounded_drains_all:
  "\<not> output_file s \<Longrightarrow> length xs < unat (frames s) \<Longrightarrow>
   \<forall>x \<in> set xs. frame_alloc_ok x \<and> 0 \<le> receive_ret x \<Longrightarrow>
   \<exists>s'. receive_loop s xs = (Some 0, s', [])
      \<and> displayed (trace s') = displayed (trace s) @ map frame xs
      \<and> frames s' = frames s - word_of_nat (length xs)"
proof (induction xs arbitrary: s)
  case Nil
  then show ?case by simp
next
  case (Cons x xs)
  define s1 where "s1 = (call (Ev_drmprime_out_display (frame x)) s)\<lparr>frames := frames s - 1\<rparr>"
  from Cons.prems(2) have big: "2 \<le> unat (frames s)" by simp
  then have nz: "frames s \<noteq> 0" "frames s - 1 \<noteq> 0"
    using unat_minus_one [of "frames s"] by (auto simp: unat_eq_zero)
  from big nz have u: "unat (frames s - 1) = unat (frames s) - 1"
    by (simp add: unat_minus_one)
  from Cons.prems(3) have good: "frame_alloc_ok x" "0 \<le> receive_ret x" by simp_all
  then have nt: "receive_ret x \<noteq> AVERROR EAGAIN" "receive_ret x \<noteq> AVERROR_EOF"
    by (auto simp: AVERROR_def EAGAIN_def AVERROR_EOF_def)
  from good nt nz Cons.prems(1) have b: "for_body s x = (Continue, s1)"
    by (simp add: for_body_def count_frame_def at_fail_def Let_def s1_def)
  have "\<not> output_file s1" "length xs < unat (frames s1)"
    "\<forall>x \<in> set xs. frame_alloc_ok x \<and> 0 \<le> receive_ret x"
    using Cons.prems u by (simp_all add: s1_def)
  from Cons.IH [OF this] obtain s' where
    r: "receive_loop s1 xs = (Some 0, s', [])"
    "displayed (trace s') = displayed (trace s1) @ map frame xs"
    "frames s' = frames s1 - word_of_nat (length xs)"
    by blast
  from r b have "receive_loop s (x # xs) = (Some 0, s', [])" by simp
  moreover from r(2) have "displayed (trace s') = displayed (trace s) @ map frame (x # xs)"
    by (simp add: s1_def)
  moreover from r(3) have "frames s' = frames s - word_of_nat (length (x # xs))"
    by (simp add: s1_def)
  ultimately show ?case by blast
qed

subsection \<open>The claims\<close>

lemma get_hw_format_offered:
  "AV_PIX_FMT_NONE \<in> set pix_fmts \<Longrightarrow>
   get_hw_format hw pix_fmts =
     Some (if hw \<in> set (offered pix_fmts) then hw else AV_PIX_FMT_NONE)"
  by (induction pix_fmts) (auto simp: offered_def)

text \<open>
  C10. For every terminated array of formats handed to the callback, the callback returns
  the negotiated format \<open>hw\<close> when \<open>hw\<close> is among the offered formats and
  \<^verbatim>\<open>AV_PIX_FMT_NONE\<close> otherwise; so, for a negotiated format that is a real format, it
  returns \<open>hw\<close> if and only if \<open>hw\<close> is offered, and it never returns another entry of the
  array.
\<close>

theorem get_hw_format_iff:
  assumes "AV_PIX_FMT_NONE \<in> set pix_fmts"
  shows "get_hw_format hw pix_fmts =
           Some (if hw \<in> set (offered pix_fmts) then hw else AV_PIX_FMT_NONE)
       \<and> (hw \<noteq> AV_PIX_FMT_NONE \<longrightarrow>
           (get_hw_format hw pix_fmts = Some hw \<longleftrightarrow> hw \<in> set (offered pix_fmts)))
       \<and> get_hw_format hw pix_fmts \<in> {Some hw, Some AV_PIX_FMT_NONE}"
  using get_hw_format_offered [OF assms, of hw] by auto

theorem get_hw_format_iff_witness:
  "AV_PIX_FMT_NONE \<in> set [AV_PIX_FMT_OTHER 0, AV_PIX_FMT_DRM_PRIME, AV_PIX_FMT_NONE, AV_PIX_FMT_OTHER 7]
   \<and> get_hw_format AV_PIX_FMT_DRM_PRIME
        [AV_PIX_FMT_OTHER 0, AV_PIX_FMT_DRM_PRIME, AV_PIX_FMT_NONE, AV_PIX_FMT_OTHER 7]
      = Some AV_PIX_FMT_DRM_PRIME
   \<and> AV_PIX_FMT_DRM_PRIME \<in> set (offered
        [AV_PIX_FMT_OTHER 0, AV_PIX_FMT_DRM_PRIME, AV_PIX_FMT_NONE, AV_PIX_FMT_OTHER 7])
   \<and> get_hw_format (AV_PIX_FMT_OTHER 7)
        [AV_PIX_FMT_OTHER 0, AV_PIX_FMT_DRM_PRIME, AV_PIX_FMT_NONE, AV_PIX_FMT_OTHER 7]
      = Some AV_PIX_FMT_NONE"
  using get_hw_format_iff [of "[AV_PIX_FMT_OTHER 0, AV_PIX_FMT_DRM_PRIME, AV_PIX_FMT_NONE, AV_PIX_FMT_OTHER 7]"
      AV_PIX_FMT_DRM_PRIME]
  by (simp add: offered_def)

lemmas run_defs = main_def parse_args_def last_arg_def dash_def strtol_ex_def env_ex_def pass_ex_def
  initial_def run_pass_def set_up_def decode_pass_def teardown_def negotiate_def
  avcodec_get_hw_config_def AV_CODEC_HW_CONFIG_METHOD_HW_DEVICE_CTX_def codec_ex_def
  hw_decoder_init_def decode_write_def for_body_def dump_frame_def count_frame_def at_fail_def
  turn_ex_def frame_ex_def packet_ex_def call_def AVERROR_def EAGAIN_def ENOMEM_def AVERROR_EOF_def
  int_of_size_t_def Let_def

text \<open>
  Passes of a run that nothing cuts short. When the arguments parse, the device type and
  the display are there, every pass gets through its set-up, the replay count is not
  \<^verbatim>\<open>LONG_MIN\<close> (where \<^verbatim>\<open>--loop_count\<close> overflows) and a dump file, if there is one, goes with
  a single pass, the run executes \<open>max loop_count 1\<close> passes, each opened and closed once:
  one for a replay count of 0 or less, which is also what a command line without \<^verbatim>\<open>-l\<close>
  gives, and \<open>N\<close> for a replay count \<open>N\<close> of 1 or more.
\<close>

theorem passes_executed:
  assumes "parse_args (strtol_fn e) argv = Args v"
    and "hwdevice_type e \<noteq> AV_HWDEVICE_TYPE_NONE" and "drmprime_out_ok e"
    and "\<forall>k. set_up_succeeds (hwdevice_type e) (pass_envs e k)"
    and "out_name v = None \<or> (fopen_ok e \<and> sint (loop_count v) \<le> 1)"
    and "sint (loop_count v) \<noteq> - (2 ^ 63)"
  shows "(\<exists>s'. main e argv = (Returned 0, s')
           \<and> passes_begun (trace s') = nat (max (sint (loop_count v)) 1)
           \<and> passes_closed (trace s') = nat (max (sint (loop_count v)) 1))
       \<and> (''-l'' \<notin> set argv \<and> ''--loop'' \<notin> set argv \<longrightarrow> loop_count v = 0)"
proof
  show "''-l'' \<notin> set argv \<and> ''--loop'' \<notin> set argv \<longrightarrow> loop_count v = 0"
    using assms(1) parse_loop_default [of "strtol_fn e" "int (length argv)" argv _ v]
    by (auto simp: parse_args_def)
next
  let ?s1 = "call Ev_drmprime_out_new initial"
  have z: "passes_begun (trace ?s1) = 0" "passes_closed (trace ?s1) = 0"
    "\<not> output_file ?s1" "\<not> file_closed ?s1"
    by (simp_all add: initial_def passes_begun_def passes_closed_def)
  show "\<exists>s'. main e argv = (Returned 0, s')
           \<and> passes_begun (trace s') = nat (max (sint (loop_count v)) 1)
           \<and> passes_closed (trace s') = nat (max (sint (loop_count v)) 1)"
  proof (cases "out_name v")
    case None
    from loopy_passes [OF assms(4) assms(6), of ?s1 0] z obtain s' where
      "loopy (hwdevice_type e) (pass_envs e) 0 v ?s1 = (Returned 0, s')"
      "passes_begun (trace s') = nat (max (sint (loop_count v)) 1)"
      "passes_closed (trace s') = nat (max (sint (loop_count v)) 1)"
      by auto
    with assms(1-3) None show ?thesis
      by (simp add: main_def)
  next
    case (Some path)
    let ?s2 = "call (Ev_fopen path) (?s1\<lparr>output_file := True\<rparr>)"
    have z2: "passes_begun (trace ?s2) = 0" "passes_closed (trace ?s2) = 0" "\<not> file_closed ?s2"
      by (simp_all add: initial_def passes_begun_def passes_closed_def)
    from Some assms(5) have f: "fopen_ok e" "sint (loop_count v) \<le> 1" by simp_all
    from loopy_passes [OF assms(4) assms(6), of ?s2 0] z2 f(2) obtain s' where
      "loopy (hwdevice_type e) (pass_envs e) 0 v ?s2 = (Returned 0, s')"
      "passes_begun (trace s') = nat (max (sint (loop_count v)) 1)"
      "passes_closed (trace s') = nat (max (sint (loop_count v)) 1)"
      by auto
    with assms(1-3) Some f(1) show ?thesis
      by (simp add: main_def)
  qed
qed

theorem passes_executed_witness:
  "fst (main (env_ex 2) [''-l'', ''3'', ''in.mkv'']) = Returned 0
   \<and> passes_begun (trace (snd (main (env_ex 2) [''-l'', ''3'', ''in.mkv'']))) = 3
   \<and> passes_closed (trace (snd (main (env_ex 2) [''-l'', ''3'', ''in.mkv'']))) = 3
   \<and> fst (main (env_ex 2) [''in.mkv'']) = Returned 0
   \<and> passes_begun (trace (snd (main (env_ex 2) [''in.mkv'']))) = 1"
proof -
  let ?v = "\<lparr>loop_count = 3, frame_count = - 1, out_name = None, in_file = Some ''in.mkv''\<rparr>"
  let ?w = "\<lparr>loop_count = 0, frame_count = - 1, out_name = None, in_file = Some ''in.mkv''\<rparr>"
  have a: "parse_args (strtol_fn (env_ex 2)) [''-l'', ''3'', ''in.mkv''] = Args ?v"
    by (simp add: parse_args_def last_arg_def dash_def strtol_ex_def env_ex_def)
  have b: "parse_args (strtol_fn (env_ex 2)) [''in.mkv''] = Args ?w"
    by (simp add: parse_args_def last_arg_def dash_def strtol_ex_def env_ex_def)
  have h: "hwdevice_type (env_ex 2) \<noteq> AV_HWDEVICE_TYPE_NONE" "drmprime_out_ok (env_ex 2)"
    by (simp_all add: env_ex_def)
  have su: "\<forall>k. set_up_succeeds (hwdevice_type (env_ex 2)) (pass_envs (env_ex 2) k)"
    by (simp add: set_up_succeeds_def env_ex_def pass_ex_def negotiate_def codec_ex_def
        avcodec_get_hw_config_def AV_CODEC_HW_CONFIG_METHOD_HW_DEVICE_CTX_def)
  have o: "out_name ?v = None \<or> (fopen_ok (env_ex 2) \<and> sint (loop_count ?v) \<le> 1)"
    "out_name ?w = None \<or> (fopen_ok (env_ex 2) \<and> sint (loop_count ?w) \<le> 1)"
    by simp_all
  have m: "sint (loop_count ?v) \<noteq> - (2 ^ 63)" "sint (loop_count ?w) \<noteq> - (2 ^ 63)"
    by simp_all
  from passes_executed [OF a h su o(1) m(1)] passes_executed [OF b h su o(2) m(2)]
  show ?thesis by auto
qed

text \<open>
  C6, as amended. Take a pass that starts with the dump stream, if there is one, not yet
  closed, and whose set-up succeeds. Every way its decoding can go (the stream runs out,
  the frame count stops it, a decode, transfer or write call fails) ends in the teardown:
  the last calls of the pass are \<^verbatim>\<open>avcodec_free_context\<close> on the codec context, which is
  where \<^verbatim>\<open>hw_decoder_init\<close> put the device context, \<^verbatim>\<open>avformat_close_input\<close> on the stream
  source, and \<^verbatim>\<open>av_buffer_unref\<close> on the global \<^verbatim>\<open>hw_device_ctx\<close>, which is never assigned.
  A pass whose set-up fails, at \<^verbatim>\<open>avcodec_open2\<close> or \<^verbatim>\<open>hw_decoder_init\<close> as at any other of
  its checks, returns from \<^verbatim>\<open>main\<close> with none of those calls made, whatever the state of
  the dump stream. Nothing is said of a pass that gets through its set-up with the dump
  stream already closed.
\<close>

theorem teardown_after_set_up:
  "(set_up_succeeds dev_type e \<and> \<not> (output_file s \<and> file_closed s) \<longrightarrow>
      (\<exists>s' evs. run_pass dev_type v e s = (Completed, s')
         \<and> trace s' = trace s @ evs
              @ [Ev_avcodec_free_context, Ev_avformat_close_input, Ev_av_buffer_unref]))
   \<and> (\<not> set_up_succeeds dev_type e \<longrightarrow>
      (\<exists>r s' evs. run_pass dev_type v e s = (Aborted r, s') \<and> trace s' = trace s @ evs
         \<and> Ev_avcodec_free_context \<notin> set evs \<and> Ev_avformat_close_input \<notin> set evs
         \<and> Ev_av_buffer_unref \<notin> set evs))"
proof (intro conjI impI)
  assume "set_up_succeeds dev_type e \<and> \<not> (output_file s \<and> file_closed s)"
  then have ok: "set_up_succeeds dev_type e" and fresh: "\<not> (output_file s \<and> file_closed s)"
    by simp_all
  from run_pass_result [OF ok fresh, of v] obtain s' evs where
    "run_pass dev_type v e s = (Completed, s')"
    "trace s' = trace s @ [Ev_avformat_open_input (in_file v), Ev_avcodec_alloc_context3,
            Ev_av_hwdevice_ctx_create, Ev_avcodec_open2] @ evs
            @ (if output_file s then [Ev_fclose] else [])
            @ [Ev_avcodec_free_context, Ev_avformat_close_input, Ev_av_buffer_unref]"
    by blast
  then have "run_pass dev_type v e s = (Completed, s') \<and> trace s' = trace s
      @ ([Ev_avformat_open_input (in_file v), Ev_avcodec_alloc_context3,
            Ev_av_hwdevice_ctx_create, Ev_avcodec_open2] @ evs
            @ (if output_file s then [Ev_fclose] else []))
      @ [Ev_avcodec_free_context, Ev_avformat_close_input, Ev_av_buffer_unref]"
    by simp
  then show "\<exists>s' evs. run_pass dev_type v e s = (Completed, s')
      \<and> trace s' = trace s @ evs
           @ [Ev_avcodec_free_context, Ev_avformat_close_input, Ev_av_buffer_unref]"
    by blast
next
  assume "\<not> set_up_succeeds dev_type e"
  from set_up_fails_result [OF this, of v s] obtain r s' evs where
    f: "set_up dev_type v e s = (Inl r, s')" "trace s' = trace s @ evs"
    "set evs \<subseteq> {Ev_avformat_open_input (in_file v), Ev_avcodec_alloc_context3,
            Ev_av_hwdevice_ctx_create}"
    by blast
  from f(3) have "Ev_avcodec_free_context \<notin> set evs \<and> Ev_avformat_close_input \<notin> set evs
      \<and> Ev_av_buffer_unref \<notin> set evs"
    by auto
  with f(1,2) show "\<exists>r s' evs. run_pass dev_type v e s = (Aborted r, s') \<and> trace s' = trace s @ evs
      \<and> Ev_avcodec_free_context \<notin> set evs \<and> Ev_avformat_close_input \<notin> set evs
      \<and> Ev_av_buffer_unref \<notin> set evs"
    by (auto simp: run_pass_def)
qed

theorem teardown_after_set_up_witness:
  "set_up_succeeds AV_HWDEVICE_TYPE_DRM (pass_ex 1)
   \<and> \<not> (output_file initial \<and> file_closed initial)
   \<and> (\<exists>s' evs. run_pass AV_HWDEVICE_TYPE_DRM
          \<lparr>loop_count = 0, frame_count = 1, out_name = None, in_file = Some ''in.mkv''\<rparr>
          (pass_ex 1) initial = (Completed, s')
        \<and> trace s' = trace initial @ evs
             @ [Ev_avcodec_free_context, Ev_avformat_close_input, Ev_av_buffer_unref])
   \<and> \<not> set_up_succeeds AV_HWDEVICE_TYPE_DRM ((pass_ex 1)\<lparr>open2_ret := - 1\<rparr>)
   \<and> (\<exists>r s' evs. run_pass AV_HWDEVICE_TYPE_DRM
          \<lparr>loop_count = 0, frame_count = 1, out_name = None, in_file = Some ''in.mkv''\<rparr>
          ((pass_ex 1)\<lparr>open2_ret := - 1\<rparr>) initial = (Aborted r, s')
        \<and> trace s' = trace initial @ evs
        \<and> Ev_avcodec_free_context \<notin> set evs \<and> Ev_avformat_close_input \<notin> set evs
        \<and> Ev_av_buffer_unref \<notin> set evs)"
proof -
  have a: "\<not> (output_file initial \<and> file_closed initial)"
    by (simp add: initial_def)
  have b: "set_up_succeeds AV_HWDEVICE_TYPE_DRM (pass_ex 1)"
    by (simp add: set_up_succeeds_def pass_ex_def negotiate_def codec_ex_def
        avcodec_get_hw_config_def AV_CODEC_HW_CONFIG_METHOD_HW_DEVICE_CTX_def)
  have c: "\<not> set_up_succeeds AV_HWDEVICE_TYPE_DRM ((pass_ex 1)\<lparr>open2_ret := - 1\<rparr>)"
    by (simp add: set_up_succeeds_def)
  from teardown_after_set_up [of AV_HWDEVICE_TYPE_DRM "pass_ex 1" initial] a b
  have one: "\<exists>s' evs. run_pass AV_HWDEVICE_TYPE_DRM
          \<lparr>loop_count = 0, frame_count = 1, out_name = None, in_file = Some ''in.mkv''\<rparr>
          (pass_ex 1) initial = (Completed, s')
        \<and> trace s' = trace initial @ evs
             @ [Ev_avcodec_free_context, Ev_avformat_close_input, Ev_av_buffer_unref]"
    by blast
  from teardown_after_set_up [of AV_HWDEVICE_TYPE_DRM "(pass_ex 1)\<lparr>open2_ret := - 1\<rparr>" initial] c
  have two: "\<exists>r s' evs. run_pass AV_HWDEVICE_TYPE_DRM
          \<lparr>loop_count = 0, frame_count = 1, out_name = None, in_file = Some ''in.mkv''\<rparr>
          ((pass_ex 1)\<lparr>open2_ret := - 1\<rparr>) initial = (Aborted r, s')
        \<and> trace s' = trace initial @ evs
        \<and> Ev_avcodec_free_context \<notin> set evs \<and> Ev_avformat_close_input \<notin> set evs
        \<and> Ev_av_buffer_unref \<notin> set evs"
    by blast
  from a b c one two show ?thesis by blast
qed

text \<open>
  C6 as stated fails when \<^verbatim>\<open>avcodec_open2\<close> fails: the input is open, the codec context
  and the device are allocated, and \<^verbatim>\<open>main\<close> returns \<open>-1\<close> without closing or freeing them.
\<close>

theorem codec_open_failure_skips_teardown:
  "main env_open2_fails [''in.mkv''] =
     (Returned (- 1),
      \<lparr>hw_pix_fmt = AV_PIX_FMT_DRM_PRIME, output_file = False, file_closed = False, frames = 0,
       trace = [Ev_drmprime_out_new, Ev_avformat_open_input (Some ''in.mkv''),
                Ev_avcodec_alloc_context3, Ev_av_hwdevice_ctx_create]\<rparr>)
   \<and> Ev_avformat_close_input \<notin> set (trace (snd (main env_open2_fails [''in.mkv''])))
   \<and> Ev_avcodec_free_context \<notin> set (trace (snd (main env_open2_fails [''in.mkv''])))"
proof -
  have "main env_open2_fails [''in.mkv''] =
     (Returned (- 1),
      \<lparr>hw_pix_fmt = AV_PIX_FMT_DRM_PRIME, output_file = False, file_closed = False, frames = 0,
       trace = [Ev_drmprime_out_new, Ev_avformat_open_input (Some ''in.mkv''),
                Ev_avcodec_alloc_context3, Ev_av_hwdevice_ctx_create]\<rparr>)"
    by (simp add: env_open2_fails_def run_defs)
  then show ?thesis by simp
qed

lemma receive_loop_through:
  "through s pre = Some s1 \<Longrightarrow> receive_loop s (pre @ xs) = receive_loop s1 xs"
proof (induction pre arbitrary: s)
  case Nil
  then show ?case by simp
next
  case (Cons a pre)
  then show ?case
    by (cases "for_body s a") (auto split: flow.splits)
qed

text \<open>
  C3. At every turn of the drain loop, however many frames the call has dispatched
  before it: when \<^verbatim>\<open>avcodec_receive_frame\<close> returns \<^verbatim>\<open>AVERROR(EAGAIN)\<close> or \<^verbatim>\<open>AVERROR_EOF\<close>,
  \<^verbatim>\<open>decode_write\<close> returns 0 and the read loop goes on with the next packet; when it
  returns any other negative value, \<^verbatim>\<open>decode_write\<close> returns that value and the read loop
  stops there, with the packets after this one unread.
\<close>

theorem transient_signals:
  assumes "through s pre = Some s1" and "frame_alloc_ok x"
    and "0 \<le> ret" and "0 \<le> read_ret p" and "stream_index p = video_stream"
    and "0 \<le> send_ret p"
  shows "(receive_ret x = AVERROR EAGAIN \<or> receive_ret x = AVERROR_EOF \<longrightarrow>
            for_body s1 x = (Return 0, s1)
          \<and> decode_write s (send_ret p) (pre @ x # xs) = (Some 0, s1, xs)
          \<and> read_loop video_stream ret s (p # ps) (pre @ x # xs)
              = read_loop video_stream 0 s1 ps xs)
       \<and> (receive_ret x < 0 \<and> receive_ret x \<noteq> AVERROR EAGAIN \<and> receive_ret x \<noteq> AVERROR_EOF \<longrightarrow>
            for_body s1 x = (Return (receive_ret x), s1)
          \<and> decode_write s (send_ret p) (pre @ x # xs) = (Some (receive_ret x), s1, xs)
          \<and> read_loop video_stream ret s (p # ps) (pre @ x # xs) = (True, s1, ps, xs))"
proof (intro conjI impI)
  assume t: "receive_ret x = AVERROR EAGAIN \<or> receive_ret x = AVERROR_EOF"
  with assms(2) show b: "for_body s1 x = (Return 0, s1)"
    by (auto simp: for_body_def)
  with assms(1,6) show d: "decode_write s (send_ret p) (pre @ x # xs) = (Some 0, s1, xs)"
    by (simp add: decode_write_def receive_loop_through)
  with assms(3-5) show "read_loop video_stream ret s (p # ps) (pre @ x # xs)
      = read_loop video_stream 0 s1 ps xs"
    by simp
next
  assume e: "receive_ret x < 0 \<and> receive_ret x \<noteq> AVERROR EAGAIN \<and> receive_ret x \<noteq> AVERROR_EOF"
  with assms(2) show b: "for_body s1 x = (Return (receive_ret x), s1)"
    by (auto simp: for_body_def at_fail_def)
  with assms(1,6) show d: "decode_write s (send_ret p) (pre @ x # xs) = (Some (receive_ret x), s1, xs)"
    by (simp add: decode_write_def receive_loop_through)
  with assms(3-5) e show "read_loop video_stream ret s (p # ps) (pre @ x # xs) = (True, s1, ps, xs)"
    by (cases ps) simp_all
qed

theorem transient_signals_witness:
  "through (initial\<lparr>frames := - 1\<rparr>) [turn_ex 0]
     = Some (call (Ev_drmprime_out_display (frame_ex 0)) (initial\<lparr>frames := - 2\<rparr>))
   \<and> decode_write (initial\<lparr>frames := - 1\<rparr>) (send_ret packet_ex)
        ([turn_ex 0] @ (turn_ex 1)\<lparr>receive_ret := AVERROR EAGAIN\<rparr> # [turn_ex 2])
     = (Some 0, call (Ev_drmprime_out_display (frame_ex 0)) (initial\<lparr>frames := - 2\<rparr>), [turn_ex 2])
   \<and> read_loop 0 0 (initial\<lparr>frames := - 1\<rparr>) (packet_ex # [packet_ex])
        ([turn_ex 0] @ (turn_ex 1)\<lparr>receive_ret := - 5\<rparr> # [turn_ex 2])
     = (True, call (Ev_drmprime_out_display (frame_ex 0)) (initial\<lparr>frames := - 2\<rparr>),
        [packet_ex], [turn_ex 2])"
proof -
  let ?s = "initial\<lparr>frames := - 1\<rparr>"
  let ?s1 = "call (Ev_drmprime_out_display (frame_ex 0)) (initial\<lparr>frames := - 2\<rparr>)"
  have t: "through ?s [turn_ex 0] = Some ?s1"
    by (simp add: for_body_def count_frame_def at_fail_def turn_ex_def initial_def call_def
        AVERROR_def EAGAIN_def AVERROR_EOF_def Let_def)
  have p: "0 \<le> (0::int)" "0 \<le> read_ret packet_ex" "stream_index packet_ex = 0"
    "0 \<le> send_ret packet_ex"
    by (simp_all add: packet_ex_def)
  have a: "frame_alloc_ok ((turn_ex 1)\<lparr>receive_ret := AVERROR EAGAIN\<rparr>)"
    "frame_alloc_ok ((turn_ex 1)\<lparr>receive_ret := - 5\<rparr>)"
    by (simp_all add: turn_ex_def)
  from transient_signals [OF t a(1) p, of "[turn_ex 2]" "[packet_ex]"]
    transient_signals [OF t a(2) p, of "[turn_ex 2]" "[packet_ex]"] t
  show ?thesis
    by (simp add: AVERROR_def EAGAIN_def AVERROR_EOF_def)
qed

lemma find_hw_config_first:
  "i \<le> k \<Longrightarrow> k < length (hw_configs decoder) \<Longrightarrow> qualifies dev_type (hw_configs decoder ! k) \<Longrightarrow>
   \<forall>j. i \<le> j \<and> j < k \<longrightarrow> \<not> qualifies dev_type (hw_configs decoder ! j) \<Longrightarrow>
   find_hw_config decoder dev_type i = Some (pix_fmt (hw_configs decoder ! k))"
proof (induction decoder dev_type i rule: find_hw_config.induct)
  case (1 decoder dev_type i)
  show ?case
  proof (cases "i = k")
    case True
    with "1.prems" show ?thesis
      by (subst find_hw_config.simps) (simp add: avcodec_get_hw_config_def qualifies_def)
  next
    case False
    with "1.prems" have lt: "i < k" and nq: "\<not> qualifies dev_type (hw_configs decoder ! i)"
      by auto
    with "1.prems" have g: "avcodec_get_hw_config decoder i = Some (hw_configs decoder ! i)"
      by (simp add: avcodec_get_hw_config_def)
    from nq have c: "\<not> (methods (hw_configs decoder ! i) AND AV_CODEC_HW_CONFIG_METHOD_HW_DEVICE_CTX \<noteq> 0
        \<and> device_type (hw_configs decoder ! i) = dev_type)"
      by (simp add: qualifies_def)
    have "find_hw_config decoder dev_type (i + 1) = Some (pix_fmt (hw_configs decoder ! k))"
      using lt "1.prems" by (intro "1.IH" [OF g c]) auto
    with g c show ?thesis
      by (subst find_hw_config.simps) auto
  qed
qed

lemma find_hw_config_none:
  "\<forall>c \<in> set (hw_configs decoder). \<not> qualifies dev_type c \<Longrightarrow>
   find_hw_config decoder dev_type i = None"
proof (induction decoder dev_type i rule: find_hw_config.induct)
  case (1 decoder dev_type i)
  show ?case
  proof (cases "i < length (hw_configs decoder)")
    case False
    then show ?thesis
      by (subst find_hw_config.simps) (simp add: avcodec_get_hw_config_def)
  next
    case True
    then have g: "avcodec_get_hw_config decoder i = Some (hw_configs decoder ! i)"
      by (simp add: avcodec_get_hw_config_def)
    from True "1.prems" have c: "\<not> (methods (hw_configs decoder ! i) AND AV_CODEC_HW_CONFIG_METHOD_HW_DEVICE_CTX \<noteq> 0
        \<and> device_type (hw_configs decoder ! i) = dev_type)"
      by (simp add: qualifies_def)
    from "1.IH" [OF g c "1.prems"] g c show ?thesis
      by (subst find_hw_config.simps) auto
  qed
qed

text \<open>
  C5. For an H264 stream the negotiation does not look at the decoder's hardware
  configurations: whatever they are the result is the same, namely the \<^verbatim>\<open>h264_v4l2m2m\<close>
  decoder that \<^verbatim>\<open>avcodec_find_decoder_by_name\<close> found, with \<^verbatim>\<open>AV_PIX_FMT_DRM_PRIME\<close>. For any
  other codec whose first configuration with the device-context method and the
  requested device type stands at index \<open>k\<close>, the result is the decoder with that
  configuration's pixel format, whatever stands before it. When no configuration
  qualifies the negotiation fails, and the pass returns \<open>-1\<close> from \<^verbatim>\<open>main\<close>.
\<close>

theorem negotiate_cases:
  "(codec_id decoder = AV_CODEC_ID_H264 \<longrightarrow>
      negotiate dev_type (decoder\<lparr>hw_configs := cs\<rparr>) by_name = negotiate dev_type decoder by_name
      \<and> negotiate dev_type decoder (Some m2m) = Some (m2m, AV_PIX_FMT_DRM_PRIME))
   \<and> (codec_id decoder \<noteq> AV_CODEC_ID_H264 \<and> k < length (hw_configs decoder)
       \<and> qualifies dev_type (hw_configs decoder ! k)
       \<and> (\<forall>j < k. \<not> qualifies dev_type (hw_configs decoder ! j)) \<longrightarrow>
      negotiate dev_type decoder by_name = Some (decoder, pix_fmt (hw_configs decoder ! k)))
   \<and> (codec_id decoder \<noteq> AV_CODEC_ID_H264
       \<and> (\<forall>c \<in> set (hw_configs decoder). \<not> qualifies dev_type c) \<longrightarrow>
      negotiate dev_type decoder by_name = None)
   \<and> (open_input_ret e = 0 \<and> 0 \<le> find_stream_info_ret e \<and> 0 \<le> find_best_stream_ret e
       \<and> negotiate dev_type (best_decoder e) (decoder_by_name e) = None \<longrightarrow>
      run_pass dev_type v e s = (Aborted (- 1), call (Ev_avformat_open_input (in_file v)) s))"
proof (intro conjI impI)
  assume "codec_id decoder = AV_CODEC_ID_H264"
  then show "negotiate dev_type (decoder\<lparr>hw_configs := cs\<rparr>) by_name = negotiate dev_type decoder by_name"
    and "negotiate dev_type decoder (Some m2m) = Some (m2m, AV_PIX_FMT_DRM_PRIME)"
    by (simp_all add: negotiate_def)
next
  assume a: "codec_id decoder \<noteq> AV_CODEC_ID_H264 \<and> k < length (hw_configs decoder)
       \<and> qualifies dev_type (hw_configs decoder ! k)
       \<and> (\<forall>j < k. \<not> qualifies dev_type (hw_configs decoder ! j))"
  then have "find_hw_config decoder dev_type 0 = Some (pix_fmt (hw_configs decoder ! k))"
    by (intro find_hw_config_first) auto
  with a show "negotiate dev_type decoder by_name = Some (decoder, pix_fmt (hw_configs decoder ! k))"
    by (simp add: negotiate_def)
next
  assume a: "codec_id decoder \<noteq> AV_CODEC_ID_H264
       \<and> (\<forall>c \<in> set (hw_configs decoder). \<not> qualifies dev_type c)"
  then have "find_hw_config decoder dev_type 0 = None"
    by (intro find_hw_config_none) auto
  with a show "negotiate dev_type decoder by_name = None"
    by (simp add: negotiate_def)
next
  assume "open_input_ret e = 0 \<and> 0 \<le> find_stream_info_ret e \<and> 0 \<le> find_best_stream_ret e
       \<and> negotiate dev_type (best_decoder e) (decoder_by_name e) = None"
  then show "run_pass dev_type v e s = (Aborted (- 1), call (Ev_avformat_open_input (in_file v)) s)"
    by (simp add: run_pass_def set_up_def Let_def)
qed

theorem negotiate_cases_witness:
  "negotiate AV_HWDEVICE_TYPE_DRM (codec_ex\<lparr>codec_id := AV_CODEC_ID_H264\<rparr>)
       (Some (codec_ex\<lparr>codec_name := ''h264_v4l2m2m'', hw_configs := []\<rparr>))
     = Some (codec_ex\<lparr>codec_name := ''h264_v4l2m2m'', hw_configs := []\<rparr>, AV_PIX_FMT_DRM_PRIME)
   \<and> negotiate AV_HWDEVICE_TYPE_DRM codec_ex None = Some (codec_ex, AV_PIX_FMT_DRM_PRIME)
   \<and> negotiate (AV_HWDEVICE_TYPE_OTHER 9) codec_ex None = None
   \<and> run_pass (AV_HWDEVICE_TYPE_OTHER 9)
        \<lparr>loop_count = 0, frame_count = - 1, out_name = None, in_file = Some ''in.mkv''\<rparr>
        (pass_ex 1) initial
     = (Aborted (- 1), call (Ev_avformat_open_input (Some ''in.mkv'')) initial)"
proof -
  have q: "qualifies AV_HWDEVICE_TYPE_DRM (hw_configs codec_ex ! 1)"
    "\<forall>j < 1. \<not> qualifies AV_HWDEVICE_TYPE_DRM (hw_configs codec_ex ! j)"
    "\<forall>c \<in> set (hw_configs codec_ex). \<not> qualifies (AV_HWDEVICE_TYPE_OTHER 9) c"
    "codec_id codec_ex \<noteq> AV_CODEC_ID_H264" "(1::nat) < length (hw_configs codec_ex)"
    by (simp_all add: qualifies_def codec_ex_def AV_CODEC_HW_CONFIG_METHOD_HW_DEVICE_CTX_def)
  have n: "negotiate (AV_HWDEVICE_TYPE_OTHER 9) codec_ex None = None"
    using negotiate_cases [where decoder = codec_ex and dev_type = "AV_HWDEVICE_TYPE_OTHER 9"
        and by_name = None] q by blast
  have p: "open_input_ret (pass_ex 1) = 0" "0 \<le> find_stream_info_ret (pass_ex 1)"
    "0 \<le> find_best_stream_ret (pass_ex 1)" "best_decoder (pass_ex 1) = codec_ex"
    "decoder_by_name (pass_ex 1) = None"
    by (simp_all add: pass_ex_def)
  have "negotiate AV_HWDEVICE_TYPE_DRM (codec_ex\<lparr>codec_id := AV_CODEC_ID_H264\<rparr>)
       (Some (codec_ex\<lparr>codec_name := ''h264_v4l2m2m'', hw_configs := []\<rparr>))
     = Some (codec_ex\<lparr>codec_name := ''h264_v4l2m2m'', hw_configs := []\<rparr>, AV_PIX_FMT_DRM_PRIME)"
    using negotiate_cases [where decoder = "codec_ex\<lparr>codec_id := AV_CODEC_ID_H264\<rparr>"
        and dev_type = AV_HWDEVICE_TYPE_DRM]
    by simp
  moreover have "negotiate AV_HWDEVICE_TYPE_DRM codec_ex None = Some (codec_ex, AV_PIX_FMT_DRM_PRIME)"
    using negotiate_cases [where decoder = codec_ex and k = 1 and dev_type = AV_HWDEVICE_TYPE_DRM
        and by_name = None] q
    by (simp add: codec_ex_def)
  moreover have "run_pass (AV_HWDEVICE_TYPE_OTHER 9)
        \<lparr>loop_count = 0, frame_count = - 1, out_name = None, in_file = Some ''in.mkv''\<rparr>
        (pass_ex 1) initial
     = (Aborted (- 1), call (Ev_avformat_open_input (Some ''in.mkv'')) initial)"
    using negotiate_cases [where dev_type = "AV_HWDEVICE_TYPE_OTHER 9" and e = "pass_ex 1"
        and v = "\<lparr>loop_count = 0, frame_count = - 1, out_name = None, in_file = Some ''in.mkv''\<rparr>"
        and s = initial]
      n p by simp
  ultimately show ?thesis using n by simp
qed

subsection \<open>The argument loop stays inside argv\<close>

lemma parse_loop_in_bounds:
  "n = int (length a) \<Longrightarrow> parse_loop strtol n a v \<noteq> Out_of_bounds"
proof (induction strtol n a v rule: parse_loop.induct)
  case (1 strtol n a v)
  show ?case
  proof (cases a)
    case Nil
    with "1.prems" show ?thesis
      by (subst parse_loop.simps) (simp add: last_arg_def)
  next
    case (Cons arg a1)
    show ?thesis
    proof (cases a1)
      case Nil
      with Cons "1.prems" show ?thesis
        by (subst parse_loop.simps) (simp add: last_arg_def)
    next
      case (Cons x a2)
      with \<open>a = arg # a1\<close> "1.prems" "1.IH" show ?thesis
        apply (subst parse_loop.simps)
        apply (auto simp: last_arg_def split: if_splits prod.splits)
        done
    qed
  qed
qed

lemma parse_args_usage:
  "parse_args strtol [] = Usage"
  "dash arg \<Longrightarrow> arg \<notin> {''-l'', ''--loop'', ''-f'', ''--frames'', ''-o''} \<Longrightarrow>
     parse_args strtol (arg # x # xs) = Usage"
  "dash arg \<Longrightarrow> arg \<notin> {''-l'', ''--loop'', ''-f'', ''--frames'', ''-o''} \<Longrightarrow>
     parse_args strtol [arg]
       = Args \<lparr>loop_count = 0, frame_count = - 1, out_name = None, in_file = None\<rparr>"
  by (simp_all add: parse_args_def last_arg_def)

subsection \<open>Where the program departs from the claims\<close>

text \<open>
  C1. The claim is that every run executes \<open>max loop_count 1\<close> passes. With
  \<^verbatim>\<open>-l 2 -o out.yuv\<close> two passes are due. The first one runs to its end and closes the dump
  stream with the rest of its teardown; the second one is begun and, on its first frame,
  writes to the closed stream: the run is in undefined behaviour with two passes begun
  and one completed.
\<close>

theorem replay_with_dump_cut_short:
  "fst (main (env_ex 1) [''-l'', ''2'', ''-o'', ''out.yuv'', ''in.mkv'']) = Undefined
   \<and> passes_begun (trace (snd (main (env_ex 1) [''-l'', ''2'', ''-o'', ''out.yuv'', ''in.mkv'']))) = 2
   \<and> passes_closed (trace (snd (main (env_ex 1) [''-l'', ''2'', ''-o'', ''out.yuv'', ''in.mkv'']))) = 1"
  by (simp add: run_defs passes_begun_def passes_closed_def)

text \<open>
  C2. The claim is that a pass with frame count \<open>K > 0\<close> dispatches at most \<open>K\<close> frames,
  the flush included. With \<^verbatim>\<open>-f 1\<close> and a stream of three frames the read loop stops
  after the first frame, \<^verbatim>\<open>frames\<close> being 0; the flush then calls \<^verbatim>\<open>decode_write\<close> again,
  which displays the next frame before it tests \<^verbatim>\<open>frames == 0\<close>. Two frames are
  dispatched.
\<close>

theorem frame_budget_overrun:
  "fst (main (env_ex 3) [''-f'', ''1'', ''in.mkv'']) = Returned 0
   \<and> displayed (trace (snd (main (env_ex 3) [''-f'', ''1'', ''in.mkv''])))
       = [frame_ex 0, frame_ex 1]"
  by (simp add: run_defs displayed_def upt_rec numeral_3_eq_3)

text \<open>
  C8. The claim is that a frame count of 0 dispatches exactly one frame. With \<^verbatim>\<open>-f 0\<close>
  and a stream of three frames the read loop stops after the first frame and the flush
  displays a second one; without \<^verbatim>\<open>-f\<close> all three are displayed.
\<close>

theorem zero_budget_two_frames:
  "displayed (trace (snd (main (env_ex 3) [''-f'', ''0'', ''in.mkv''])))
     = [frame_ex 0, frame_ex 1]
   \<and> displayed (trace (snd (main (env_ex 3) [''in.mkv''])))
     = [frame_ex 0, frame_ex 1, frame_ex 2]"
  by (simp add: run_defs displayed_def upt_rec numeral_3_eq_3)

text \<open>
  C4. The claim is that the dump file stays open between passes. With \<^verbatim>\<open>-l 2 -o out.yuv\<close>
  the first pass ends with \<^verbatim>\<open>fclose(output_file)\<close>; \<^verbatim>\<open>output_file\<close> keeps its value, and the
  second pass, having displayed its first frame, calls \<^verbatim>\<open>fwrite\<close> on the closed stream.
\<close>

theorem dump_closed_between_passes:
  "main (env_ex 1) [''-l'', ''2'', ''-o'', ''out.yuv'', ''in.mkv''] =
     (Undefined,
      \<lparr>hw_pix_fmt = AV_PIX_FMT_DRM_PRIME, output_file = True, file_closed = True, frames = - 1,
       trace =
         [Ev_drmprime_out_new, Ev_fopen ''out.yuv'',
          Ev_avformat_open_input (Some ''in.mkv''), Ev_avcodec_alloc_context3,
          Ev_av_hwdevice_ctx_create, Ev_avcodec_open2,
          Ev_drmprime_out_display (frame_ex 0),
          Ev_fwrite ((frame_ex 0)\<lparr>format := AV_PIX_FMT_OTHER 0\<rparr>) 24 24,
          Ev_fclose, Ev_avcodec_free_context, Ev_avformat_close_input, Ev_av_buffer_unref,
          Ev_avformat_open_input (Some ''in.mkv''), Ev_avcodec_alloc_context3,
          Ev_av_hwdevice_ctx_create, Ev_avcodec_open2,
          Ev_drmprime_out_display (frame_ex 0)]\<rparr>)"
  by (simp add: run_defs)

text \<open>
  C7. The claim is that a short write fails the dispatch. On a machine where every
  \<^verbatim>\<open>fwrite\<close> writes 0 of the 24 bytes, the test \<^verbatim>\<open>ret < 0\<close> never holds: both frames are
  dispatched and the run returns 0.
\<close>

theorem short_write_not_detected:
  "main env_short_write [''-o'', ''out.yuv'', ''in.mkv''] =
     (Returned 0,
      \<lparr>hw_pix_fmt = AV_PIX_FMT_DRM_PRIME, output_file = True, file_closed = True, frames = - 3,
       trace =
         [Ev_drmprime_out_new, Ev_fopen ''out.yuv'',
          Ev_avformat_open_input (Some ''in.mkv''), Ev_avcodec_alloc_context3,
          Ev_av_hwdevice_ctx_create, Ev_avcodec_open2,
          Ev_drmprime_out_display (frame_ex 0),
          Ev_fwrite ((frame_ex 0)\<lparr>format := AV_PIX_FMT_OTHER 0\<rparr>) 24 0,
          Ev_drmprime_out_display (frame_ex 1),
          Ev_fwrite ((frame_ex 1)\<lparr>format := AV_PIX_FMT_OTHER 0\<rparr>) 24 0,
          Ev_fclose, Ev_avcodec_free_context, Ev_avformat_close_input, Ev_av_buffer_unref,
          Ev_drmprime_out_delete]\<rparr>)"
  by (simp add: env_short_write_def run_defs numeral_2_eq_2)

text \<open>
  C9. The claim is that a command line without the input file ends in the usage error.
  For the command line \<^verbatim>\<open>hello_drmprime -x\<close> the loop takes \<^verbatim>\<open>-x\<close>, leaves by \<^verbatim>\<open>break\<close> with
  \<open>n = 0\<close>, and the program goes on with \<^verbatim>\<open>in_file = argv[argc]\<close>, a \<^verbatim>\<open>NULL\<close>: it opens the
  display and calls \<^verbatim>\<open>avformat_open_input\<close>; when that fails it returns \<open>-1\<close>.
\<close>

theorem unknown_flag_last_no_usage:
  "parse_args strtol_ex [''-x'']
     = Args \<lparr>loop_count = 0, frame_count = - 1, out_name = None, in_file = None\<rparr>
   \<and> main env_no_input [''-x''] =
     (Returned (- 1),
      \<lparr>hw_pix_fmt = AV_PIX_FMT_OTHER 0, output_file = False, file_closed = False, frames = 0,
       trace = [Ev_drmprime_out_new, Ev_avformat_open_input None]\<rparr>)"
  by (simp add: env_no_input_def run_defs)

end
